theory Spec2Isabelle
  imports Complex_Main "HOL-Library.Word"
begin

unbundle bit_operations_syntax

section \<open>Values of the host language\<close>

text \<open>
  A byte of a \<^verbatim>\<open>Uint8Array\<close> is an 8-bit word, an element of an \<^verbatim>\<open>Int16Array\<close> a 16-bit
  word read as two's complement. A JavaScript \<^verbatim>\<open>number\<close> is modelled as a rational: every
  number the audio codec computes is an integer below \<open>2^53\<close> or such an integer divided by
  a power of two, and those are exact in a double. The exceptions the platform raises are
  values of \<open>js_error\<close>; a function that can throw returns \<open>js_error + 'a\<close>.
\<close>

type_synonym byte = "8 word"
type_synonym number = rat

datatype js_error =
    RangeError
  | NotSupportedError
  | IndexSizeError
  | InvalidCharacterError

text \<open>
  \<^verbatim>\<open>ToUint32\<close> and \<^verbatim>\<open>ToUint16\<close> of ECMAScript, which \<^verbatim>\<open>DataView.setUint32\<close> and
  \<^verbatim>\<open>setUint16\<close> apply to their argument: truncate towards zero, then reduce modulo the width.
\<close>

definition truncate_number :: "number \<Rightarrow> int" where
  "truncate_number x = (if x < 0 then \<lceil>x\<rceil> else \<lfloor>x\<rfloor>)"

definition ToUint32 :: "number \<Rightarrow> nat" where
  "ToUint32 x = nat (truncate_number x mod 2 ^ 32)"

definition ToUint16 :: "number \<Rightarrow> nat" where
  "ToUint16 x = nat (truncate_number x mod 2 ^ 16)"

section \<open>Audio codec: the WAV container (ResultDisplay.tsx, createWavBlob)\<close>

text \<open>
  A \<^verbatim>\<open>DataView\<close> over an \<^verbatim>\<open>ArrayBuffer\<close> is the list of the buffer's bytes. A write
  beyond the end throws \<^verbatim>\<open>RangeError\<close>. The bytes of a value are listed least significant
  first; a big-endian write stores them reversed.
\<close>

definition bytes_of :: "nat \<Rightarrow> nat \<Rightarrow> byte list" where
  "bytes_of k n = map (\<lambda>i. word_of_nat (n div 256 ^ i mod 256)) [0..<k]"

definition store :: "byte list \<Rightarrow> nat \<Rightarrow> byte list \<Rightarrow> js_error + byte list" where
  "store view byteOffset bs =
     (if byteOffset + length bs > length view then Inl RangeError
      else Inr (take byteOffset view @ bs @ drop (byteOffset + length bs) view))"

definition setUint32 :: "byte list \<Rightarrow> nat \<Rightarrow> number \<Rightarrow> bool \<Rightarrow> js_error + byte list" where
  "setUint32 view byteOffset v littleEndian =
     store view byteOffset
       (if littleEndian then bytes_of 4 (ToUint32 v) else rev (bytes_of 4 (ToUint32 v)))"

definition setUint16 :: "byte list \<Rightarrow> nat \<Rightarrow> number \<Rightarrow> bool \<Rightarrow> js_error + byte list" where
  "setUint16 view byteOffset v littleEndian =
     store view byteOffset
       (if littleEndian then bytes_of 2 (ToUint16 v) else rev (bytes_of 2 (ToUint16 v)))"

text \<open>The reader that mirrors \<open>setUint32\<close>: \<^verbatim>\<open>DataView.getUint32\<close>.\<close>

definition value_of :: "byte list \<Rightarrow> nat" where
  "value_of bs = foldr (\<lambda>b acc. unat b + 256 * acc) bs 0"

definition getUint32 :: "byte list \<Rightarrow> nat \<Rightarrow> bool \<Rightarrow> js_error + nat" where
  "getUint32 view byteOffset littleEndian =
     (if byteOffset + 4 > length view then Inl RangeError
      else let bs = take 4 (drop byteOffset view)
           in Inr (value_of (if littleEndian then bs else rev bs)))"

text \<open>
  The header writes of \<^verbatim>\<open>createWavBlob\<close>, in the order of the source; the first one that
  throws ends the function. The products \<open>numChannels * (bitsPerSample / 8)\<close> and
  \<open>sampleRate * blockAlign\<close> are exact here and rounded to a double in the source; the two
  agree whenever the exact value is a double, as it is for every integer below \<open>2^53\<close> and
  so for the parameters 1, 24000 and 16 of the component's call.
\<close>

datatype header_write =
    U32 nat number bool
  | U16 nat number bool

fun write_field :: "byte list \<Rightarrow> header_write \<Rightarrow> js_error + byte list" where
  "write_field view (U32 byteOffset v littleEndian) = setUint32 view byteOffset v littleEndian"
| "write_field view (U16 byteOffset v littleEndian) = setUint16 view byteOffset v littleEndian"

fun write_fields :: "header_write list \<Rightarrow> byte list \<Rightarrow> js_error + byte list" where
  "write_fields [] view = Inr view"
| "write_fields (w # ws) view =
     (case write_field view w of Inl e \<Rightarrow> Inl e | Inr view' \<Rightarrow> write_fields ws view')"

definition wav_header :: "nat \<Rightarrow> number \<Rightarrow> number \<Rightarrow> number \<Rightarrow> header_write list" where
  "wav_header dataSize numChannels sampleRate bitsPerSample =
     (let blockAlign = numChannels * (bitsPerSample / 8) in
      [ U32 0 0x52494646 False,
        U32 4 (36 + of_nat dataSize) True,
        U32 8 0x57415645 False,
        U32 12 0x666d7420 False,
        U32 16 16 True,
        U16 20 1 True,
        U16 22 numChannels True,
        U32 24 sampleRate True,
        U32 28 (sampleRate * blockAlign) True,
        U16 32 blockAlign True,
        U16 34 bitsPerSample True,
        U32 36 0x64617461 False,
        U32 40 (of_nat dataSize) True ])"

text \<open>
  \<^verbatim>\<open>createWavBlob\<close>: a zeroed buffer of \<open>44 + dataSize\<close> bytes, the header, then
  \<^verbatim>\<open>new Uint8Array(buffer).set(pcmData, 44)\<close>. The result is the content of the blob (its
  type is the constant \<^verbatim>\<open>audio/wav\<close>).
\<close>

definition createWavBlob :: "byte list \<Rightarrow> number \<Rightarrow> number \<Rightarrow> number \<Rightarrow> js_error + byte list" where
  "createWavBlob pcmData numChannels sampleRate bitsPerSample =
     (let dataSize = length pcmData;
          buffer = replicate (44 + dataSize) 0
      in case write_fields (wav_header dataSize numChannels sampleRate bitsPerSample) buffer of
           Inl e \<Rightarrow> Inl e
         | Inr view \<Rightarrow> store view 44 pcmData)"

text \<open>The bytes a header write covers.\<close>

fun field_offset :: "header_write \<Rightarrow> nat" where
  "field_offset (U32 off v le) = off"
| "field_offset (U16 off v le) = off"

fun field_size :: "header_write \<Rightarrow> nat" where
  "field_size (U32 off v le) = 4"
| "field_size (U16 off v le) = 2"

subsection \<open>Properties of the container\<close>

lemma length_bytes_of: "length (bytes_of k n) = k"
  by (simp add: bytes_of_def)

lemma store_length:
  "store view off bs = Inr view' \<Longrightarrow> length view' = length view"
  by (auto simp: store_def split: if_splits)

lemma store_drop:
  "store view off bs = Inr view' \<Longrightarrow> off + length bs \<le> n \<Longrightarrow> drop n view' = drop n view"
  by (auto simp: store_def split: if_splits)

lemma store_window_same:
  "store view off bs = Inr view' \<Longrightarrow> take (length bs) (drop off view') = bs"
  by (auto simp: store_def split: if_splits)

lemma store_window_other:
  assumes "store view off bs = Inr view'" and "p + k \<le> off \<or> off + length bs \<le> p"
  shows "take k (drop p view') = take k (drop p view)"
proof -
  from assms(1) have r: "off + length bs \<le> length view"
    and v: "view' = take off view @ bs @ drop (off + length bs) view"
    by (auto simp: store_def split: if_splits)
  have lv: "length view' = length view"
    using assms(1) by (rule store_length)
  have nth_eq: "view' ! j = view ! j" if "j < off \<or> off + length bs \<le> j" and "j < length view" for j
  proof (cases "j < off")
    case True
    then show ?thesis using r by (simp add: v nth_append)
  next
    case False
    with that have j: "off + length bs \<le> j" by simp
    then have a: "\<not> j < off" "\<not> j - off < length bs"
      and b: "off + length bs + (j - off - length bs) = j"
      by linarith+
    have "view' ! j = drop (off + length bs) view ! (j - off - length bs)"
      using r a by (simp add: v nth_append min_absorb2)
    also have "\<dots> = view ! j"
      using r b by simp
    finally show ?thesis .
  qed
  show ?thesis
  proof (rule nth_equalityI)
    show "length (take k (drop p view')) = length (take k (drop p view))"
      by (simp add: lv)
  next
    fix i assume "i < length (take k (drop p view'))"
    then have i: "i < k" "p + i < length view" by (auto simp: lv)
    from assms(2) i have "p + i < off \<or> off + length bs \<le> p + i" by linarith
    from nth_eq[OF this i(2)] i show "take k (drop p view') ! i = take k (drop p view) ! i"
      by (simp add: lv)
  qed
qed

lemma write_field_store:
  "write_field view w = store view (field_offset w)
     (case w of U32 off v le \<Rightarrow> (if le then bytes_of 4 (ToUint32 v) else rev (bytes_of 4 (ToUint32 v)))
              | U16 off v le \<Rightarrow> (if le then bytes_of 2 (ToUint16 v) else rev (bytes_of 2 (ToUint16 v))))"
  by (cases w) (simp_all add: setUint32_def setUint16_def)

lemma write_field_ok:
  assumes "field_offset w + field_size w \<le> length view"
  shows "\<exists>view'. write_field view w = Inr view' \<and> length view' = length view
     \<and> (\<forall>n. field_offset w + field_size w \<le> n \<longrightarrow> drop n view' = drop n view)
     \<and> (\<forall>p k. p + k \<le> field_offset w \<or> field_offset w + field_size w \<le> p \<longrightarrow>
            take k (drop p view') = take k (drop p view))"
proof -
  define bs where "bs = (case w of U32 off v le \<Rightarrow> (if le then bytes_of 4 (ToUint32 v) else rev (bytes_of 4 (ToUint32 v)))
              | U16 off v le \<Rightarrow> (if le then bytes_of 2 (ToUint16 v) else rev (bytes_of 2 (ToUint16 v))))"
  have len: "length bs = field_size w"
    by (cases w) (simp_all add: bs_def length_bytes_of)
  have eq: "write_field view w = store view (field_offset w) bs"
    by (simp add: write_field_store bs_def)
  from assms len obtain view' where s: "store view (field_offset w) bs = Inr view'"
    by (auto simp: store_def)
  show ?thesis
    using s store_length[OF s] store_drop[OF s] store_window_other[OF s] len eq
    by auto
qed

lemma write_fields_ok:
  assumes "\<forall>w \<in> set ws. field_offset w + field_size w \<le> n" and "n \<le> length view"
    and "\<forall>w \<in> set ws. p + k \<le> field_offset w \<or> field_offset w + field_size w \<le> p"
  shows "\<exists>view'. write_fields ws view = Inr view' \<and> length view' = length view
     \<and> drop n view' = drop n view \<and> take k (drop p view') = take k (drop p view)"
  using assms
proof (induction ws arbitrary: view)
  case Nil
  then show ?case by simp
next
  case (Cons w ws)
  from Cons.prems have "field_offset w + field_size w \<le> length view" by auto
  from write_field_ok[OF this] obtain v1 where
    v1: "write_field view w = Inr v1" "length v1 = length view"
        "drop n v1 = drop n view" "take k (drop p v1) = take k (drop p view)"
    using Cons.prems by auto
  from Cons.IH[of v1] Cons.prems v1 show ?case by auto
qed

lemma value_of_bytes_of_4: "value_of (bytes_of 4 n) = n mod 2 ^ 32"
proof -
  have u: "unat (word_of_nat (m mod 256) :: byte) = m mod 256" for m
    by (simp add: unat_of_nat)
  have up: "[0..<4] = [0, 1, 2, 3]" by (simp add: upt_rec)
  have s: "m mod (256 * q) = m mod 256 + 256 * (m div 256 mod q)" for m q :: nat
    by (simp add: mod_mult2_eq)
  have d: "n div 256 ^ 2 = n div 256 div 256" "n div 256 ^ 3 = n div 256 div 256 div 256"
    by (simp_all add: div_mult2_eq power2_eq_square power3_eq_cube)
  have "value_of (bytes_of 4 n) = n mod 256 + 256 * (n div 256 mod 256 + 256 * (n div 256 ^ 2 mod 256 + 256 * (n div 256 ^ 3 mod 256)))"
    unfolding value_of_def bytes_of_def up by (simp add: u)
  also have "\<dots> = n mod (256 * (256 * (256 * 256)))"
    unfolding d s ..
  finally show ?thesis by simp
qed


lemma ToUint32_of_nat: "ToUint32 (of_nat n) = n mod 2 ^ 32"
proof -
  have "truncate_number (of_nat n) = int n"
    by (simp add: truncate_number_def)
  then have "ToUint32 (of_nat n) = nat (int n mod 2 ^ 32)"
    by (simp add: ToUint32_def)
  also have "\<dots> = n mod 2 ^ 32"
    by (simp add: nat_mod_distrib)
  finally show ?thesis .
qed

lemma getUint32_window:
  "p + 4 \<le> length view \<Longrightarrow> take 4 (drop p view) = bytes_of 4 n \<Longrightarrow>
   getUint32 view p True = Inr (n mod 2 ^ 32)"
  by (simp add: getUint32_def value_of_bytes_of_4)

lemma createWavBlob_result:
  "\<exists>w. createWavBlob b numChannels sampleRate bitsPerSample = Inr w \<and>
       length w = 44 + length b \<and>
       getUint32 w 4 True = Inr ((36 + length b) mod 2 ^ 32) \<and>
       drop 44 w = b"
proof -
  define buffer :: "byte list" where "buffer = replicate (44 + length b) 0"
  define chunk where "chunk = bytes_of 4 (ToUint32 (36 + of_nat (length b)))"
  obtain rest where h: "wav_header (length b) numChannels sampleRate bitsPerSample =
      U32 0 0x52494646 False # U32 4 (36 + of_nat (length b)) True # rest"
    and rest_in: "\<forall>w \<in> set rest. field_offset w + field_size w \<le> 44"
    and rest_off: "\<forall>w \<in> set rest. 4 + 4 \<le> field_offset w \<or> field_offset w + field_size w \<le> 4"
    by (simp add: wav_header_def Let_def)
  have lb: "length buffer = 44 + length b"
    by (simp add: buffer_def)
  obtain v1 where v1: "write_field buffer (U32 0 0x52494646 False) = Inr v1" "length v1 = length buffer"
    using write_field_ok[of "U32 0 0x52494646 False" buffer] lb by auto
  have "4 + length chunk \<le> length v1"
    by (simp add: chunk_def length_bytes_of v1 lb)
  then obtain v2 where s2: "store v1 4 chunk = Inr v2"
    by (auto simp: store_def)
  have v2: "write_field v1 (U32 4 (36 + of_nat (length b)) True) = Inr v2"
    using s2 by (simp add: setUint32_def chunk_def)
  have l2: "length v2 = length buffer"
    using store_length[OF s2] v1 by simp
  have w2: "take 4 (drop 4 v2) = chunk"
    using store_window_same[OF s2] by (simp add: chunk_def length_bytes_of)
  from write_fields_ok[OF rest_in _ rest_off, of v2] l2 lb
  obtain view where view: "write_fields rest v2 = Inr view" "length view = length v2"
      "take 4 (drop 4 view) = take 4 (drop 4 v2)"
    by auto
  have hdr: "write_fields (wav_header (length b) numChannels sampleRate bitsPerSample) buffer = Inr view"
    by (simp only: h write_fields.simps v1 v2 view sum.case)
  have lview: "length view = 44 + length b"
    using view l2 lb by simp
  define w where "w = take 44 view @ b @ drop (44 + length b) view"
  have st: "store view 44 b = Inr w"
    using lview by (simp add: store_def w_def)
  have res: "createWavBlob b numChannels sampleRate bitsPerSample = Inr w"
    using hdr st by (simp add: createWavBlob_def Let_def buffer_def)
  have lw: "length w = 44 + length b"
    using store_length[OF st] lview by simp
  have dw: "drop 44 w = b"
    using lview by (simp add: w_def)
  have "take 4 (drop 4 w) = take 4 (drop 4 view)"
    using store_window_other[OF st, of 4 4] by simp
  then have "take 4 (drop 4 w) = chunk"
    using view w2 by simp
  then have "getUint32 w 4 True = Inr (ToUint32 (36 + of_nat (length b)) mod 2 ^ 32)"
    using lw by (intro getUint32_window) (simp_all add: chunk_def)
  moreover have "ToUint32 (36 + of_nat (length b)) = (36 + length b) mod 2 ^ 32"
    using ToUint32_of_nat[of "36 + length b"] by simp
  ultimately have "getUint32 w 4 True = Inr ((36 + length b) mod 2 ^ 32)"
    by simp
  with res lw dw show ?thesis by blast
qed

text \<open>
  The container of four data bytes, whole: \<^verbatim>\<open>RIFF\<close>, 40, \<^verbatim>\<open>WAVE\<close>, \<^verbatim>\<open>fmt \<close>, 16, format 1,
  one channel, 24000 Hz, 48000 bytes per second, 2 bytes per block, 16 bits, \<^verbatim>\<open>data\<close>, 4, and
  the data.
\<close>

lemma createWavBlob_example:
  "createWavBlob [1, 2, 3, 4] 1 24000 16 = Inr
     [0x52, 0x49, 0x46, 0x46, 40, 0, 0, 0, 0x57, 0x41, 0x56, 0x45,
      0x66, 0x6d, 0x74, 0x20, 16, 0, 0, 0, 1, 0, 1, 0,
      0xC0, 0x5D, 0, 0, 0x80, 0xBB, 0, 0, 2, 0, 16, 0,
      0x64, 0x61, 0x74, 0x61, 4, 0, 0, 0, 1, 2, 3, 4]"
  by (simp add: createWavBlob_def wav_header_def Let_def setUint32_def setUint16_def store_def
        bytes_of_def ToUint32_def ToUint16_def truncate_number_def upt_rec)

text \<open>
  The ChunkSize field has 32 bits, as the RIFF format prescribes, so from \<open>2^32 - 36\<close> data
  bytes on it holds \<open>36 + length b\<close> reduced modulo \<open>2^32\<close>. The component never builds such a
  container: its one call of \<^verbatim>\<open>createWavBlob\<close>, in \<^verbatim>\<open>handleDownloadAudio\<close>, passes the bytes
  that \<^verbatim>\<open>decode\<close> makes of a payload string, never more bytes than the string has code
  units (\<open>length_decode\<close> in the section on playback), and the engines hold no string of
  that length.
\<close>

lemma createWavBlob_chunk_size_mod:
  "getUint32 (projr (createWavBlob b 1 24000 16)) 4 True = Inr ((36 + length b) mod 2 ^ 32)"
proof -
  obtain w where "createWavBlob b 1 24000 16 = Inr w"
     "getUint32 w 4 True = Inr ((36 + length b) mod 2 ^ 32)"
    using createWavBlob_result[of b 1 24000 16] by blast
  then show ?thesis by simp
qed

text \<open>
  Claim C1. For every byte buffer \<open>b\<close> within the range of the 32-bit size field, so for
  every non-empty PCM16 buffer of even length the component can hold,
  \<open>createWavBlob b 1 24000 16\<close> returns a binary of length \<open>44 + length b\<close> whose ChunkSize
  field (bytes 4..7, little-endian) is \<open>36 + length b\<close> and whose bytes from offset 44 on are
  \<open>b\<close>.
\<close>

theorem createWavBlob_layout:
  assumes "length b < 2 ^ 32 - 36"
  shows "\<exists>w. createWavBlob b 1 24000 16 = Inr w \<and>
           length w = 44 + length b \<and>
           getUint32 w 4 True = Inr (36 + length b) \<and>
           drop 44 w = b"
proof -
  obtain w where w: "createWavBlob b 1 24000 16 = Inr w" "length w = 44 + length b"
      "getUint32 w 4 True = Inr ((36 + length b) mod 2 ^ 32)" "drop 44 w = b"
    using createWavBlob_result[of b 1 24000 16] by blast
  from assms have "36 + length b < 2 ^ 32"
    by simp
  then have "(36 + length b) mod 2 ^ 32 = 36 + length b"
    by (rule mod_less)
  with w show ?thesis by simp
qed

theorem createWavBlob_layout_witness:
  "[1, 2, 3, 4 :: byte] \<noteq> [] \<and> even (length [1, 2, 3, 4 :: byte]) \<and>
   length [1, 2, 3, 4 :: byte] < 2 ^ 32 - 36 \<and>
   (\<exists>w. createWavBlob [1, 2, 3, 4] 1 24000 16 = Inr w \<and>
        length w = 48 \<and> getUint32 w 4 True = Inr 40 \<and> drop 44 w = [1, 2, 3, 4])"
  using createWavBlob_layout[of "[1, 2, 3, 4]"] by simp

section \<open>Audio codec: PCM16 to float frames (ResultDisplay.tsx, decodeAudioData)\<close>

text \<open>
  \<^verbatim>\<open>new Int16Array(data.buffer)\<close> views the bytes as 16-bit elements and throws
  \<^verbatim>\<open>RangeError\<close> when the byte length is not a multiple of 2. The element at index \<open>k\<close> is made
  of the bytes \<open>2k\<close> (low) and \<open>2k + 1\<close> (high): typed arrays use the byte order of the
  platform, little-endian on every platform a browser runs on. The buffer of \<open>data\<close> is the
  array itself: \<^verbatim>\<open>decode\<close> allocates it with \<^verbatim>\<open>new Uint8Array(len)\<close>.
\<close>

fun int16_elements :: "byte list \<Rightarrow> 16 word list" where
  "int16_elements (lo # hi # rest) = (ucast lo OR push_bit 8 (ucast hi)) # int16_elements rest"
| "int16_elements _ = []"

definition Int16Array :: "byte list \<Rightarrow> js_error + 16 word list" where
  "Int16Array buffer =
     (if length buffer mod 2 \<noteq> 0 then Inl RangeError else Inr (int16_elements buffer))"

text \<open>
  An element of a \<^verbatim>\<open>Float32Array\<close>. Every finite value the conversion stores is a 16-bit
  integer divided by \<open>2^15\<close>, which a 32-bit float holds exactly (lemma \<open>sample_fits_float32\<close>),
  so the stored value is the rational itself. \<open>NaN\<close> is what \<^verbatim>\<open>undefined / 32768.0\<close> gives.
\<close>

datatype f32 = Finite rat | NaN

type_synonym AudioBuffer = "f32 list list"

text \<open>
  \<^verbatim>\<open>BaseAudioContext.createBuffer(numberOfChannels, length, sampleRate)\<close> of the Web Audio
  API. The first two parameters are \<^verbatim>\<open>unsigned long\<close>: the binding converts a number with
  \<open>ToUint32\<close>. The call throws \<^verbatim>\<open>NotSupportedError\<close> when the channel count or the length
  is zero or when a value is outside the range the implementation supports; the limits of
  the implementation are fields of the context. The new buffer is silent.
\<close>

record AudioContext =
  maxChannels :: nat
  minSampleRate :: number
  maxSampleRate :: number

definition createBuffer :: "AudioContext \<Rightarrow> number \<Rightarrow> number \<Rightarrow> number \<Rightarrow> js_error + AudioBuffer" where
  "createBuffer ctx numberOfChannels len sampleRate =
     (let channels = ToUint32 numberOfChannels; frames = ToUint32 len in
      if channels = 0 \<or> maxChannels ctx < channels \<or> frames = 0
         \<or> sampleRate < minSampleRate ctx \<or> maxSampleRate ctx < sampleRate
      then Inl NotSupportedError
      else Inr (replicate channels (replicate frames (Finite 0))))"

text \<open>\<^verbatim>\<open>AudioBuffer.getChannelData(channel)\<close> throws \<^verbatim>\<open>IndexSizeError\<close> beyond the last channel.\<close>

definition getChannelData :: "AudioBuffer \<Rightarrow> nat \<Rightarrow> js_error + f32 list" where
  "getChannelData buffer channel =
     (if channel < length buffer then Inr (buffer ! channel) else Inl IndexSizeError)"

text \<open>
  \<^verbatim>\<open>dataInt16[k] / 32768.0\<close>: reading a typed array beyond its end gives \<^verbatim>\<open>undefined\<close>, and
  the quotient is then \<open>NaN\<close>.
\<close>

definition sample_value :: "16 word list \<Rightarrow> nat \<Rightarrow> f32" where
  "sample_value dataInt16 k =
     (if k < length dataInt16 then Finite (of_int (sint (dataInt16 ! k)) / 32768) else NaN)"

text \<open>
  The inner loop \<^verbatim>\<open>for (let i = 0; i < frameCount; i++) channelData[i] = ...\<close>. The bound is
  the quotient \<^verbatim>\<open>dataInt16.length / numChannels\<close>, not an integer in general. A write to a
  typed array beyond its end does nothing, which is what \<open>xs[i := v]\<close> does in HOL.
\<close>

function fillFrames :: "16 word list \<Rightarrow> nat \<Rightarrow> nat \<Rightarrow> number \<Rightarrow> nat \<Rightarrow> f32 list \<Rightarrow> f32 list" where
  "fillFrames dataInt16 numChannels channel frameCount i channelData =
     (if of_nat i < frameCount
      then fillFrames dataInt16 numChannels channel frameCount (i + 1)
             (channelData[i := sample_value dataInt16 (i * numChannels + channel)])
      else channelData)"
  by pat_completeness auto
termination
proof (relation "measure (\<lambda>(dataInt16, numChannels, channel, frameCount, i, channelData).
                    nat \<lceil>frameCount\<rceil> - i)")
  show "wf (measure (\<lambda>(dataInt16 :: 16 word list, numChannels :: nat, channel :: nat,
                       frameCount :: number, i :: nat, channelData :: f32 list).
                    nat \<lceil>frameCount\<rceil> - i))"
    by simp
next
  fix dataInt16 :: "16 word list" and numChannels channel i :: nat
    and frameCount :: number and channelData :: "f32 list"
  assume "of_nat i < frameCount"
  then have "int i < \<lceil>frameCount\<rceil>"
    by (simp add: less_ceiling_iff)
  then have "i < nat \<lceil>frameCount\<rceil>"
    by linarith
  then show "((dataInt16, numChannels, channel, frameCount, i + 1,
                channelData[i := sample_value dataInt16 (i * numChannels + channel)]),
              (dataInt16, numChannels, channel, frameCount, i, channelData))
             \<in> measure (\<lambda>(dataInt16, numChannels, channel, frameCount, i, channelData).
                    nat \<lceil>frameCount\<rceil> - i)"
    by simp
qed

declare fillFrames.simps [simp del]

text \<open>
  The outer loop \<^verbatim>\<open>for (let channel = 0; channel < numChannels; channel++)\<close>. The array that
  \<^verbatim>\<open>getChannelData\<close> returns is the buffer's own, so the writes of the inner loop are
  writes to the buffer.
\<close>

function fillChannels :: "16 word list \<Rightarrow> nat \<Rightarrow> number \<Rightarrow> nat \<Rightarrow> AudioBuffer \<Rightarrow> js_error + AudioBuffer" where
  "fillChannels dataInt16 numChannels frameCount channel buffer =
     (if channel < numChannels
      then (case getChannelData buffer channel of
              Inl e \<Rightarrow> Inl e
            | Inr channelData \<Rightarrow>
                fillChannels dataInt16 numChannels frameCount (channel + 1)
                  (buffer[channel := fillFrames dataInt16 numChannels channel frameCount 0 channelData]))
      else Inr buffer)"
  by pat_completeness auto
termination
  by (relation "measure (\<lambda>(dataInt16, numChannels, frameCount, channel, buffer). numChannels - channel)")
     auto

declare fillChannels.simps [simp del]

text \<open>
  \<^verbatim>\<open>decodeAudioData(data, ctx, sampleRate, numChannels)\<close>. With \<open>numChannels = 0\<close> the
  quotient is \<^verbatim>\<open>Infinity\<close> or \<open>NaN\<close> in the source and \<open>0\<close> here; \<open>createBuffer\<close> rejects
  the channel count before the length is looked at, so the difference is never observed.
\<close>

definition decodeAudioData :: "byte list \<Rightarrow> AudioContext \<Rightarrow> number \<Rightarrow> nat \<Rightarrow> js_error + AudioBuffer" where
  "decodeAudioData data ctx sampleRate numChannels =
     (case Int16Array data of
        Inl e \<Rightarrow> Inl e
      | Inr dataInt16 \<Rightarrow>
          (let frameCount = of_nat (length dataInt16) / of_nat numChannels in
           case createBuffer ctx (of_nat numChannels) frameCount sampleRate of
             Inl e \<Rightarrow> Inl e
           | Inr buffer \<Rightarrow> fillChannels dataInt16 numChannels frameCount 0 buffer))"

text \<open>
  Vocabulary for the results below, not part of the source: \<open>decodable\<close> collects the
  conditions under which no step of \<open>decodeAudioData\<close> throws, \<open>decoded\<close> is the buffer it
  then returns, and \<open>audioCtx\<close> is a context with the limits every implementation of the
  Web Audio API has to support (32 channels, sample rates from 8000 to 96000 Hz).
\<close>

definition decodable :: "byte list \<Rightarrow> AudioContext \<Rightarrow> number \<Rightarrow> nat \<Rightarrow> bool" where
  "decodable data ctx sampleRate numChannels \<longleftrightarrow>
     even (length data) \<and> 0 < numChannels \<and> numChannels < 2 ^ 32 \<and>
     numChannels \<le> maxChannels ctx \<and>
     (length data div 2 div numChannels) mod 2 ^ 32 \<noteq> 0 \<and>
     minSampleRate ctx \<le> sampleRate \<and> sampleRate \<le> maxSampleRate ctx"

definition decoded :: "byte list \<Rightarrow> nat \<Rightarrow> AudioBuffer" where
  "decoded data numChannels =
     map (\<lambda>channel. map (\<lambda>i. sample_value (int16_elements data) (i * numChannels + channel))
                       [0..<(length data div 2 div numChannels) mod 2 ^ 32])
         [0..<numChannels]"

definition audioCtx :: AudioContext where
  "audioCtx = \<lparr> maxChannels = 32, minSampleRate = 8000, maxSampleRate = 96000 \<rparr>"

subsection \<open>The loops\<close>

lemma length_int16_elements: "length (int16_elements bs) = length bs div 2"
  by (induction bs rule: int16_elements.induct) simp_all

lemma fillFrames_length:
  "length (fillFrames d n c fc i cd) = length cd"
proof (induction d n c fc i cd rule: fillFrames.induct)
  case (1 d n c fc i cd)
  show ?case
  proof (cases "of_nat i < fc")
    case True
    with 1 show ?thesis by (subst fillFrames.simps) simp
  next
    case False
    then show ?thesis by (subst fillFrames.simps) simp
  qed
qed

lemma fillFrames_nth:
  "j < length cd \<Longrightarrow>
   fillFrames d n c fc i cd ! j =
     (if i \<le> j \<and> of_nat j < fc then sample_value d (j * n + c) else cd ! j)"
proof (induction d n c fc i cd rule: fillFrames.induct)
  case (1 d n c fc i cd)
  show ?case
  proof (cases "of_nat i < fc")
    case True
    have "fillFrames d n c fc i cd ! j = fillFrames d n c fc (i + 1) (cd[i := sample_value d (i * n + c)]) ! j"
      using True by (subst fillFrames.simps) simp
    also have "\<dots> = (if i + 1 \<le> j \<and> of_nat j < fc then sample_value d (j * n + c)
                      else cd[i := sample_value d (i * n + c)] ! j)"
      using "1.IH"[OF True] "1.prems" by simp
    also have "\<dots> = (if i \<le> j \<and> of_nat j < fc then sample_value d (j * n + c) else cd ! j)"
      using True "1.prems" by (cases "i = j") auto
    finally show ?thesis .
  next
    case False
    have "\<not> (i \<le> j \<and> of_nat j < fc)"
    proof
      assume a: "i \<le> j \<and> of_nat j < fc"
      then have "(of_nat i :: rat) \<le> of_nat j" by simp
      with a False show False by linarith
    qed
    moreover have "fillFrames d n c fc i cd = cd"
      using False by (subst fillFrames.simps) simp
    ultimately show ?thesis by presburger
  qed
qed

lemma fillChannels_ok:
  "n \<le> length buffer \<Longrightarrow>
   \<exists>buf. fillChannels d n fc ch buffer = Inr buf \<and> length buf = length buffer \<and>
     (\<forall>c < length buffer. buf ! c =
        (if ch \<le> c \<and> c < n then fillFrames d n c fc 0 (buffer ! c) else buffer ! c))"
proof (induction d n fc ch buffer rule: fillChannels.induct)
  case (1 d n fc ch buffer)
  show ?case
  proof (cases "ch < n")
    case True
    with "1.prems" have g: "getChannelData buffer ch = Inr (buffer ! ch)"
      by (simp add: getChannelData_def)
    define b1 where "b1 = buffer[ch := fillFrames d n ch fc 0 (buffer ! ch)]"
    have "n \<le> length b1" using "1.prems" by (simp add: b1_def)
    from "1.IH"[OF True g this[unfolded b1_def]] obtain buf where
      buf: "fillChannels d n fc (ch + 1) b1 = Inr buf" "length buf = length b1"
        "\<forall>c < length b1. buf ! c = (if ch + 1 \<le> c \<and> c < n then fillFrames d n c fc 0 (b1 ! c) else b1 ! c)"
      unfolding b1_def by blast
    have eq: "fillChannels d n fc ch buffer = Inr buf"
      using True g buf(1) by (subst fillChannels.simps) (simp add: b1_def)
    have "buf ! c = (if ch \<le> c \<and> c < n then fillFrames d n c fc 0 (buffer ! c) else buffer ! c)"
      if "c < length buffer" for c
    proof (cases "c = ch")
      case True
      with buf(3) that \<open>ch < n\<close> show ?thesis by (simp add: b1_def)
    next
      case False
      with buf(3) that show ?thesis by (auto simp: b1_def)
    qed
    with eq buf(2) show ?thesis by (simp add: b1_def)
  next
    case False
    then show ?thesis by (subst fillChannels.simps) auto
  qed
qed

lemma fillChannels_short:
  "length buffer < n \<Longrightarrow> ch \<le> length buffer \<Longrightarrow>
   fillChannels d n fc ch buffer = Inl IndexSizeError"
proof (induction d n fc ch buffer rule: fillChannels.induct)
  case (1 d n fc ch buffer)
  show ?case
  proof (cases "ch < length buffer")
    case True
    with "1.prems" have lt: "ch < n" by simp
    from True have g: "getChannelData buffer ch = Inr (buffer ! ch)"
      by (simp add: getChannelData_def)
    have "fillChannels d n fc (ch + 1) (buffer[ch := fillFrames d n ch fc 0 (buffer ! ch)]) = Inl IndexSizeError"
      using "1.IH"[OF lt g] "1.prems" True by simp
    then show ?thesis using lt g by (subst fillChannels.simps) simp
  next
    case False
    with "1.prems" have "ch = length buffer" "ch < n" by simp_all
    then show ?thesis by (subst fillChannels.simps) (simp add: getChannelData_def)
  qed
qed

subsection \<open>When the conversion returns, and what\<close>

lemma ToUint32_quotient: "ToUint32 (of_nat m / of_nat n) = (m div n) mod 2 ^ 32"
proof -
  have "(0 :: rat) \<le> of_nat m / of_nat n"
    by simp
  then have "\<not> (of_nat m / of_nat n :: rat) < 0"
    by (simp only: not_less)
  then have "truncate_number (of_nat m / of_nat n) = \<lfloor>(of_nat m / of_nat n :: rat)\<rfloor>"
    unfolding truncate_number_def by (rule if_not_P)
  also have "\<dots> = int (m div n)"
    by (simp add: floor_divide_of_nat_eq)
  finally have "ToUint32 (of_nat m / of_nat n) = nat (int (m div n) mod 2 ^ 32)"
    by (simp add: ToUint32_def)
  also have "\<dots> = (m div n) mod 2 ^ 32"
    by (simp add: nat_mod_distrib)
  finally show ?thesis .
qed

lemma frame_below_quotient:
  assumes "i < m div n" and "0 < n"
  shows "(of_nat i :: rat) < of_nat m / of_nat n"
proof -
  have "(i + 1) * n \<le> m div n * n"
    using assms(1) by (intro mult_le_mono1) simp
  also have "\<dots> \<le> m"
    by simp
  finally have "i * n < m"
    using assms(2) by simp
  then have "(of_nat (i * n) :: rat) < of_nat m"
    by (simp only: of_nat_less_iff)
  then have "(of_nat i :: rat) * of_nat n < of_nat m"
    by simp
  then show ?thesis
    using assms(2) by (simp add: pos_less_divide_eq)
qed

lemma decodeAudioData_decodable:
  assumes "decodable data ctx sampleRate numChannels"
  shows "decodeAudioData data ctx sampleRate numChannels = Inr (decoded data numChannels)"
proof -
  define d where "d = int16_elements data"
  define fc :: rat where "fc = of_nat (length d) / of_nat numChannels"
  define frames where "frames = (length data div 2 div numChannels) mod 2 ^ 32"
  define silent :: AudioBuffer where "silent = replicate numChannels (replicate frames (Finite 0))"
  from assms have ev: "even (length data)" and n0: "0 < numChannels" and n32: "numChannels < 2 ^ 32"
    and nmax: "numChannels \<le> maxChannels ctx" and f0: "frames \<noteq> 0"
    and rate: "minSampleRate ctx \<le> sampleRate" "sampleRate \<le> maxSampleRate ctx"
    by (simp_all add: decodable_def frames_def)
  have ld: "length d = length data div 2"
    by (simp add: d_def length_int16_elements)
  have i16: "Int16Array data = Inr d"
    using ev by (simp add: Int16Array_def d_def)
  have ch: "ToUint32 (of_nat numChannels) = numChannels"
    using n32 by (simp add: ToUint32_of_nat)
  have fr: "ToUint32 fc = frames"
    by (simp add: fc_def ToUint32_quotient ld frames_def)
  have cb: "createBuffer ctx (of_nat numChannels) fc sampleRate = Inr silent"
    using n0 nmax f0 rate by (simp add: createBuffer_def ch fr silent_def Let_def)
  have "numChannels \<le> length silent"
    by (simp add: silent_def)
  from fillChannels_ok[OF this, of d fc 0] obtain buf where
    buf: "fillChannels d numChannels fc 0 silent = Inr buf" "length buf = numChannels"
      "\<forall>c < numChannels. buf ! c = fillFrames d numChannels c fc 0 (silent ! c)"
    by (auto simp: silent_def)
  have res: "decodeAudioData data ctx sampleRate numChannels = Inr buf"
    using i16 cb buf(1) by (simp add: decodeAudioData_def Let_def fc_def)
  have "buf = decoded data numChannels"
  proof (rule nth_equalityI)
    show "length buf = length (decoded data numChannels)"
      by (simp add: buf(2) decoded_def)
  next
    fix c assume "c < length buf"
    then have c: "c < numChannels" by (simp add: buf(2))
    have bc: "buf ! c = fillFrames d numChannels c fc 0 (replicate frames (Finite 0))"
      using buf(3) c by (simp add: silent_def)
    have "buf ! c = map (\<lambda>i. sample_value d (i * numChannels + c)) [0..<frames]"
    proof (rule nth_equalityI)
      show "length (buf ! c) = length (map (\<lambda>i. sample_value d (i * numChannels + c)) [0..<frames])"
        by (simp add: bc fillFrames_length)
    next
      fix i assume "i < length (buf ! c)"
      then have i: "i < frames" by (simp add: bc fillFrames_length)
      have "frames \<le> length d div numChannels"
        by (simp add: frames_def ld)
      with i have "i < length d div numChannels" by simp
      then have "of_nat i < fc"
        unfolding fc_def using n0 by (rule frame_below_quotient)
      then show "buf ! c ! i = map (\<lambda>i. sample_value d (i * numChannels + c)) [0..<frames] ! i"
        using i by (simp add: bc fillFrames_nth)
    qed
    then show "buf ! c = decoded data numChannels ! c"
      using c by (simp add: decoded_def d_def frames_def)
  qed
  with res show ?thesis by simp
qed

lemma decodeAudioData_not_decodable:
  assumes "\<not> decodable data ctx sampleRate numChannels"
  shows "isl (decodeAudioData data ctx sampleRate numChannels)"
proof (cases "even (length data)")
  case False
  then have "length data mod 2 \<noteq> 0"
    by presburger
  then show ?thesis by (simp add: decodeAudioData_def Int16Array_def)
next
  case ev: True
  define d where "d = int16_elements data"
  define fc :: rat where "fc = of_nat (length d) / of_nat numChannels"
  have i16: "Int16Array data = Inr d"
    using ev by (simp add: Int16Array_def d_def)
  have ld: "length d = length data div 2"
    by (simp add: d_def length_int16_elements)
  have fr: "ToUint32 fc = (length data div 2 div numChannels) mod 2 ^ 32"
    by (simp add: fc_def ToUint32_quotient ld)
  have eq: "decodeAudioData data ctx sampleRate numChannels =
      (case createBuffer ctx (of_nat numChannels) fc sampleRate of
         Inl e \<Rightarrow> Inl e | Inr buffer \<Rightarrow> fillChannels d numChannels fc 0 buffer)"
    using i16 unfolding fc_def by (simp add: decodeAudioData_def Let_def)
  show ?thesis
  proof (cases "createBuffer ctx (of_nat numChannels) fc sampleRate")
    case (Inl e)
    with eq show ?thesis by simp
  next
    case (Inr buffer)
    then have ok: "numChannels mod 2 ^ 32 \<noteq> 0" "numChannels mod 2 ^ 32 \<le> maxChannels ctx"
        "(length data div 2 div numChannels) mod 2 ^ 32 \<noteq> 0"
        "minSampleRate ctx \<le> sampleRate" "sampleRate \<le> maxSampleRate ctx"
      and lb: "length buffer = numChannels mod 2 ^ 32"
      by (auto simp: createBuffer_def Let_def ToUint32_of_nat fr split: if_splits)
    have "\<not> numChannels < 2 ^ 32"
    proof
      assume "numChannels < 2 ^ 32"
      with ok ev have "decodable data ctx sampleRate numChannels"
        by (simp add: decodable_def)
      with assms show False by simp
    qed
    then have "length buffer < numChannels"
      using lb by (simp add: not_less)
    then have "fillChannels d numChannels fc 0 buffer = Inl IndexSizeError"
      by (rule fillChannels_short) simp
    with eq Inr show ?thesis by simp
  qed
qed

lemma decodeAudioData_Inr_iff:
  "(decodeAudioData data ctx sampleRate numChannels = Inr buffer) =
   (decodable data ctx sampleRate numChannels \<and> buffer = decoded data numChannels)"
proof (cases "decodable data ctx sampleRate numChannels")
  case True
  then show ?thesis by (auto simp: decodeAudioData_decodable)
next
  case False
  then show ?thesis using decodeAudioData_not_decodable[OF False] by auto
qed

lemma decodeAudioData_example: "decodeAudioData [0, 0x80, 0xFF, 0x7F, 1, 0] audioCtx 24000 2 =
     Inr [[Finite (- 1)], [Finite (32767 / 32768)]]"
proof -
  have "decodable [0, 0x80, 0xFF, 0x7F, 1, 0] audioCtx 24000 2"
    by (simp add: decodable_def audioCtx_def)
  then have "decodeAudioData [0, 0x80, 0xFF, 0x7F, 1, 0] audioCtx 24000 2 = Inr (decoded [0, 0x80, 0xFF, 0x7F, 1, 0] 2)"
    by (rule decodeAudioData_decodable)
  also have "decoded [0, 0x80, 0xFF, 0x7F, 1, 0] 2 = [[Finite (- 1)], [Finite (32767 / 32768)]]"
    by (simp add: decoded_def sample_value_def upt_rec)
  finally show ?thesis .
qed

subsection \<open>Normalised samples\<close>

lemma sint16_range: "- 32768 \<le> sint (s :: 16 word) \<and> sint s < 32768"
  using sint_ge[of s] sint_lt[of s] by simp

lemma sint16_min: "(sint (s :: 16 word) = - 32768) = (s = - 32768)"
proof
  assume "sint s = - 32768"
  then have "sint s = sint (- 32768 :: 16 word)" by simp
  then show "s = - 32768" by (rule signed_word_eqI)
next
  assume "s = - 32768"
  then show "sint s = - 32768" by simp
qed

lemma normalised_range:
  fixes s :: "16 word"
  shows "- 1 \<le> (of_int (sint s) / 32768 :: rat) \<and> (of_int (sint s) / 32768 :: rat) < 1 \<and>
         ((of_int (sint s) / 32768 :: rat) = - 1) = (s = - 32768)"
proof -
  have a: "(of_int (- 32768) :: rat) \<le> of_int (sint s)" "(of_int (sint s) :: rat) < of_int 32768"
    using sint16_range[of s] by (simp_all only: of_int_le_iff of_int_less_iff)
  have "((of_int (sint s) :: rat) = of_int (- 32768)) = (sint s = - 32768)"
    by (simp only: of_int_eq_iff)
  with a show ?thesis
    by (simp add: sint16_min pos_le_divide_eq pos_divide_less_eq divide_eq_eq)
qed

lemma sample_fits_float32:
  fixes s :: "16 word"
  shows "\<exists>m :: int. \<bar>m\<bar> < 2 ^ 24 \<and> (of_int (sint s) / 32768 :: rat) = of_int m / 2 ^ 15"
proof -
  have "\<bar>sint s\<bar> < 2 ^ 24"
    using sint16_range[of s] by (simp add: abs_less_iff)
  then show ?thesis by (intro exI[of _ "sint s"]) simp
qed

subsection \<open>The claims about the conversion\<close>

text \<open>
  Claim C5, as the code has it. A buffer of odd byte length is rejected with \<^verbatim>\<open>RangeError\<close>
  (the \<^verbatim>\<open>Int16Array\<close> view cannot be built). A buffer of even length is converted exactly
  when the context accepts the buffer to create: between 1 and \<open>maxChannels\<close> channels, a
  supported sample rate and a frame count that is not zero as an \<^verbatim>\<open>unsigned long\<close>. The
  result then has \<open>numChannels\<close> channels of \<open>\<lfloor>length data / 2 / numChannels\<rfloor> mod 2^32\<close> frames each,
  that is \<open>\<lfloor>length data / 2 / numChannels\<rfloor>\<close> frames for every buffer with fewer than \<open>2^32\<close>
  frames: the 16-bit samples after the last complete frame are left out. In every other
  case the conversion throws.
\<close>

theorem decodeAudioData_frame_count:
  "if odd (length data)
   then decodeAudioData data ctx sampleRate numChannels = Inl RangeError
   else if 0 < numChannels \<and> numChannels < 2 ^ 32 \<and> numChannels \<le> maxChannels ctx \<and>
           (length data div 2 div numChannels) mod 2 ^ 32 \<noteq> 0 \<and>
           minSampleRate ctx \<le> sampleRate \<and> sampleRate \<le> maxSampleRate ctx
   then \<exists>buffer. decodeAudioData data ctx sampleRate numChannels = Inr buffer \<and>
          map length buffer =
            replicate numChannels ((length data div 2 div numChannels) mod 2 ^ 32)
   else isl (decodeAudioData data ctx sampleRate numChannels)"
proof (cases "odd (length data)")
  case True
  then have "length data mod 2 \<noteq> 0"
    by presburger
  then have "decodeAudioData data ctx sampleRate numChannels = Inl RangeError"
    by (simp add: decodeAudioData_def Int16Array_def)
  then show ?thesis
    by (simp only: if_P[OF True])
next
  case even: False
  show ?thesis
  proof (cases "decodable data ctx sampleRate numChannels")
    case True
    then have "decodeAudioData data ctx sampleRate numChannels = Inr (decoded data numChannels)"
      by (rule decodeAudioData_decodable)
    moreover have "map length (decoded data numChannels) =
        replicate numChannels ((length data div 2 div numChannels) mod 2 ^ 32)"
      by (simp add: decoded_def list_eq_iff_nth_eq)
    ultimately have ex: "\<exists>buffer. decodeAudioData data ctx sampleRate numChannels = Inr buffer \<and>
          map length buffer =
            replicate numChannels ((length data div 2 div numChannels) mod 2 ^ 32)"
      by blast
    from True have cond: "0 < numChannels \<and> numChannels < 2 ^ 32 \<and> numChannels \<le> maxChannels ctx \<and>
           (length data div 2 div numChannels) mod 2 ^ 32 \<noteq> 0 \<and>
           minSampleRate ctx \<le> sampleRate \<and> sampleRate \<le> maxSampleRate ctx"
      by (simp add: decodable_def)
    from ex show ?thesis
      by (simp only: if_not_P[OF even] if_P[OF cond])
  next
    case False
    then have err: "isl (decodeAudioData data ctx sampleRate numChannels)"
      by (rule decodeAudioData_not_decodable)
    from False even have ncond: "\<not> (0 < numChannels \<and> numChannels < 2 ^ 32 \<and> numChannels \<le> maxChannels ctx \<and>
           (length data div 2 div numChannels) mod 2 ^ 32 \<noteq> 0 \<and>
           minSampleRate ctx \<le> sampleRate \<and> sampleRate \<le> maxSampleRate ctx)"
      by (simp add: decodable_def)
    from err show ?thesis
      by (simp only: if_not_P[OF even] if_not_P[OF ncond])
  qed
qed

text \<open>
  An instance: six bytes in two channels are three samples, one complete frame and one
  sample more, which is left out.
\<close>

theorem decodeAudioData_frame_count_witness:
  "\<exists>buffer. decodeAudioData [0, 0x80, 0xFF, 0x7F, 1, 0] audioCtx 24000 2 = Inr buffer \<and>
     map length buffer = replicate 2 1"
  using decodeAudioData_frame_count[of "[0, 0x80, 0xFF, 0x7F, 1, 0]" audioCtx 24000 2]
  by (simp add: audioCtx_def)

text \<open>
  The claim as it is written fails for a buffer of three bytes and one channel: it promises
  \<open>\<lfloor>3 / 2 / 1\<rfloor> = 1\<close> frame with the third byte discarded, and the conversion throws.
\<close>

theorem decodeAudioData_odd_length_fails:
  "decodeAudioData [0, 0, 0] audioCtx 24000 1 = Inl RangeError \<and>
   length [0, 0, 0 :: byte] div 2 div 1 = 1"
  by (simp add: decodeAudioData_def Int16Array_def)

text \<open>
  Claim C6. Every sample of a buffer the conversion returns is the 16-bit value \<open>s\<close> at the
  interleaved position \<open>i * numChannels + channel\<close>, read as two's complement and divided by
  32768. The quotient is at least \<open>-1\<close> and below \<open>1\<close>, and it is \<open>-1\<close> exactly when
  \<open>s = -32768\<close>. The model's rational is the stored float: see \<open>sample_fits_float32\<close>.
\<close>

theorem decodeAudioData_normalised:
  assumes "decodeAudioData data ctx sampleRate numChannels = Inr buffer"
    and "channel < length buffer" and "i < length (buffer ! channel)"
  shows "i * numChannels + channel < length (int16_elements data) \<and>
         buffer ! channel ! i =
           Finite (of_int (sint (int16_elements data ! (i * numChannels + channel))) / 32768) \<and>
         - 1 \<le> (of_int (sint (int16_elements data ! (i * numChannels + channel))) / 32768 :: rat) \<and>
         (of_int (sint (int16_elements data ! (i * numChannels + channel))) / 32768 :: rat) < 1 \<and>
         ((of_int (sint (int16_elements data ! (i * numChannels + channel))) / 32768 :: rat) = - 1) =
           (int16_elements data ! (i * numChannels + channel) = - 32768)"
proof -
  define frames where "frames = (length data div 2 div numChannels) mod 2 ^ 32"
  define k where "k = i * numChannels + channel"
  from assms(1) have d: "decodable data ctx sampleRate numChannels" and b: "buffer = decoded data numChannels"
    by (simp_all add: decodeAudioData_Inr_iff)
  from assms(2) b have c: "channel < numChannels"
    by (simp add: decoded_def)
  with assms(3) b have i: "i < frames"
    by (simp add: decoded_def frames_def)
  have "frames \<le> length data div 2 div numChannels"
    by (simp add: frames_def)
  with i have "i + 1 \<le> length data div 2 div numChannels" by simp
  then have "(i + 1) * numChannels \<le> length data div 2 div numChannels * numChannels"
    by (rule mult_le_mono1)
  also have "\<dots> \<le> length data div 2" by simp
  finally have k: "k < length (int16_elements data)"
    using c by (simp add: k_def length_int16_elements)
  have "buffer ! channel ! i = sample_value (int16_elements data) k"
    using b c i by (simp add: decoded_def frames_def k_def)
  then have v: "buffer ! channel ! i = Finite (of_int (sint (int16_elements data ! k)) / 32768)"
    using k by (simp add: sample_value_def)
  from k v normalised_range[of "int16_elements data ! k"] show ?thesis
    unfolding k_def by blast
qed

theorem decodeAudioData_normalised_witness:
  "decodeAudioData [0, 0x80, 0xFF, 0x7F, 1, 0] audioCtx 24000 2 =
     Inr [[Finite (- 1)], [Finite (32767 / 32768)]] \<and>
   int16_elements [0, 0x80, 0xFF, 0x7F, 1, 0] ! (0 * 2 + 0) = - 32768 \<and>
   [[Finite (- 1)], [Finite (32767 / 32768)]] ! 0 ! 0 =
     Finite (of_int (sint (int16_elements [0, 0x80, 0xFF, 0x7F, 1, 0] ! (0 * 2 + 0))) / 32768) \<and>
   int16_elements [0, 0x80, 0xFF, 0x7F, 1, 0] ! (0 * 2 + 1) = 32767 \<and>
   [[Finite (- 1)], [Finite (32767 / 32768)]] ! 1 ! 0 =
     Finite (of_int (sint (int16_elements [0, 0x80, 0xFF, 0x7F, 1, 0] ! (0 * 2 + 1))) / 32768)"
  using decodeAudioData_normalised[OF decodeAudioData_example, of 0 0]
    decodeAudioData_normalised[OF decodeAudioData_example, of 1 0] decodeAudioData_example
  by simp

section \<open>Strings\<close>

text \<open>
  A JavaScript string is its sequence of UTF-16 code units. The literals of the source are
  written as their code units, with the text in a comment.
\<close>

type_synonym jsstring = "16 word list"

text \<open>
  \<^verbatim>\<open>String.prototype.trim\<close> removes white space and line terminators from both ends:
  TAB, LF, VT, FF, CR, SP, NBSP, U+1680, U+2000..U+200A, U+2028, U+2029, U+202F, U+205F,
  U+3000 and U+FEFF.
\<close>

definition isWhiteSpace :: "16 word \<Rightarrow> bool" where
  "isWhiteSpace c \<longleftrightarrow>
     c \<in> set [0x9, 0xA, 0xB, 0xC, 0xD, 0x20, 0xA0, 0x1680, 0x2028, 0x2029, 0x202F, 0x205F,
               0x3000, 0xFEFF]
     \<or> (0x2000 \<le> c \<and> c \<le> 0x200A)"

definition trim :: "jsstring \<Rightarrow> jsstring" where
  "trim s = rev (dropWhile isWhiteSpace (rev (dropWhile isWhiteSpace s)))"

text \<open>\<^verbatim>\<open>s.split(sep)\<close> for a separator of one code unit; never the empty list.\<close>

fun split :: "jsstring \<Rightarrow> 16 word \<Rightarrow> jsstring list" where
  "split [] sep = [[]]"
| "split (c # cs) sep =
     (if c = sep then [] # split cs sep
      else (case split cs sep of
              [] \<Rightarrow> [[c]]
            | part # parts \<Rightarrow> (c # part) # parts))"

text \<open>\<^verbatim>\<open>s.includes(t)\<close>, which is also what a regular expression of literal alternatives tests.\<close>

fun startsWith :: "jsstring \<Rightarrow> jsstring \<Rightarrow> bool" where
  "startsWith s [] = True"
| "startsWith [] (c # cs) = False"
| "startsWith (d # ds) (c # cs) = (d = c \<and> startsWith ds cs)"

fun includes_str :: "jsstring \<Rightarrow> jsstring \<Rightarrow> bool" where
  "includes_str [] t = startsWith [] t"
| "includes_str (c # cs) t = (startsWith (c # cs) t \<or> includes_str cs t)"

section \<open>Voice recommendation (geminiService.ts, recommendVoicesFromPrompt)\<close>

definition Kore :: jsstring where "Kore = [75, 111, 114, 101]"
definition Puck :: jsstring where "Puck = [80, 117, 99, 107]"
definition Zephyr :: jsstring where "Zephyr = [90, 101, 112, 104, 121, 114]"
definition Charon :: jsstring where "Charon = [67, 104, 97, 114, 111, 110]"
definition Fenrir :: jsstring where "Fenrir = [70, 101, 110, 114, 105, 114]"

definition validVoices :: "jsstring list" where
  "validVoices = [Kore, Puck, Zephyr, Charon, Fenrir]"

text \<open>
  The test \<^verbatim>\<open>/.../.test(audioPrompt)\<close> of the fallback: the prompt contains one of the two
  Korean words for a woman, U+C5EC U+C131 or U+C5EC U+C790.
\<close>

definition female_marker :: "jsstring \<Rightarrow> bool" where
  "female_marker audioPrompt \<longleftrightarrow>
     includes_str audioPrompt [0xC5EC, 0xC131] \<or> includes_str audioPrompt [0xC5EC, 0xC790]"

text \<open>
  What \<^verbatim>\<open>ai.models.generateContent\<close> does: the call rejects, or it resolves with a response
  whose \<^verbatim>\<open>text\<close> is a string or \<^verbatim>\<open>undefined\<close>. With \<^verbatim>\<open>undefined\<close>, \<^verbatim>\<open>response.text.trim()\<close>
  throws inside the \<^verbatim>\<open>try\<close>, so the \<^verbatim>\<open>catch\<close> block runs as it does for a rejected call.
\<close>

datatype content_result = CallRejected | Response "jsstring option"

definition recommendVoicesFromPrompt :: "jsstring \<Rightarrow> content_result \<Rightarrow> jsstring list" where
  "recommendVoicesFromPrompt audioPrompt result =
     (case result of
        Response (Some text) \<Rightarrow>
          (let recommendationString = trim text;
               recommendedVoices =
                 filter (\<lambda>v. v \<in> set validVoices) (map trim (split recommendationString 44))
           in if length recommendedVoices > 0 then recommendedVoices
              else if female_marker audioPrompt then [Kore]
              else [Puck, Zephyr, Charon])
      | _ \<Rightarrow>
          (if female_marker audioPrompt then [Kore]
           else [Puck, Zephyr, Charon]))"

subsection \<open>Properties of the recommendation\<close>

lemmas voices = Kore_def Puck_def Zephyr_def Charon_def Fenrir_def validVoices_def

lemma recommend_sound:
  "recommendVoicesFromPrompt audioPrompt result \<noteq> [] \<and>
   set (recommendVoicesFromPrompt audioPrompt result) \<subseteq> set validVoices"
  by (auto simp: recommendVoicesFromPrompt_def Let_def validVoices_def
        split: content_result.splits option.splits)

lemma recommend_fallback:
  "recommendVoicesFromPrompt audioPrompt CallRejected =
     (if female_marker audioPrompt then [Kore] else [Puck, Zephyr, Charon]) \<and>
   recommendVoicesFromPrompt audioPrompt (Response None) =
     (if female_marker audioPrompt then [Kore] else [Puck, Zephyr, Charon])"
  by (simp add: recommendVoicesFromPrompt_def)

lemma recommend_keeps_order:
  "recommendVoicesFromPrompt audioPrompt (Response (Some text)) =
     (let kept = filter (\<lambda>v. v \<in> set validVoices) (map trim (split (trim text) 44))
      in if kept \<noteq> [] then kept
         else if female_marker audioPrompt then [Kore] else [Puck, Zephyr, Charon])"
  by (simp add: recommendVoicesFromPrompt_def Let_def)

text \<open>
  Claim C4 holds except for the cap: the list is never empty, holds names of the catalogue
  only (\<open>recommend_sound\<close>), keeps the order of the response (\<open>recommend_keeps_order\<close>) and
  falls back as described (\<open>recommend_fallback\<close>). Nothing shortens it to three entries:
  for the response \<^verbatim>\<open>Kore,Puck,Zephyr,Charon\<close> the function returns all four names.
\<close>

theorem recommendVoicesFromPrompt_four_voices:
  "recommendVoicesFromPrompt []
     (Response (Some [75, 111, 114, 101, 44, 80, 117, 99, 107, 44, 90, 101, 112, 104, 121, 114,
                      44, 67, 104, 97, 114, 111, 110])) =
     [Kore, Puck, Zephyr, Charon] \<and>
   length (recommendVoicesFromPrompt []
     (Response (Some [75, 111, 114, 101, 44, 80, 117, 99, 107, 44, 90, 101, 112, 104, 121, 114,
                      44, 67, 104, 97, 114, 111, 110]))) = 4"
  by (simp add: recommendVoicesFromPrompt_def Let_def trim_def isWhiteSpace_def voices)

section \<open>Workflow controller (the App component)\<close>

subsection \<open>Types (types.ts)\<close>

datatype AppState =
    IDLE
  | GENERATING_IMAGE
  | SELECTING_IMAGE
  | ANALYZING_IMAGE
  | SHOWING_RESULT
  | ERROR

text \<open>
  \<open>base64\<close> is \<open>None\<close> where the source has \<^verbatim>\<open>undefined\<close> at run time, which the upload path
  can produce (the part after the first comma of a string without a comma).
\<close>

record ImageInfo =
  base64 :: "jsstring option"
  mimeType :: jsstring

datatype PromptType = VOICE | SOUNDSCAPE

subsection \<open>The messages of the component\<close>

text \<open>
  The Korean literals of the source as UTF-16 code units; each comment gives the line of the
  literal in the component and what it says.
\<close>

text \<open>Line 30: please enter a description for the image to generate.\<close>

definition msg_describe_first :: jsstring where
  "msg_describe_first =
     [51060, 48120, 51648, 32, 49373, 49457, 51012, 32, 50948, 54620, 32, 49444, 47749,
      51012, 32, 51077, 47141, 54644, 51452, 49464, 50836, 46]"

text \<open>Line 35: the AI is making a nice image...\<close>

definition msg_creating :: jsstring where
  "msg_creating =
     [65, 73, 44032, 32, 47691, 51652, 32, 51060, 48120, 51648, 47484, 32, 47564, 46308,
      44256, 32, 51080, 50612, 50836, 46, 46, 46]"

text \<open>Line 45: an error occurred while generating the image.\<close>

definition msg_generation_failed :: jsstring where
  "msg_generation_failed =
     [51060, 48120, 51648, 32, 49373, 49457, 32, 51473, 32, 50724, 47448, 44032, 32, 48156,
      49373, 54664, 49845, 45768, 45796, 46]"

text \<open>Line 53: there is no prompt to regenerate from; please start again.\<close>

definition msg_nothing_to_regenerate :: jsstring where
  "msg_nothing_to_regenerate =
     [51116, 49373, 49457, 54624, 32, 54532, 47212, 54532, 53944, 44032, 32, 50630, 49845,
      45768, 45796, 46, 32, 45796, 49884, 32, 49884, 51089, 54644, 51452, 49464, 50836, 46]"

text \<open>Line 59: analysing the image to generate a voice prompt...\<close>

definition msg_analysing :: jsstring where
  "msg_analysing =
     [51060, 48120, 51648, 47484, 32, 48516, 49437, 54616, 50668, 32, 47785, 49548, 47532,
      32, 54532, 47212, 54532, 53944, 47484, 32, 49373, 49457, 32, 51473, 51077, 45768,
      45796, 46, 46, 46]"

text \<open>Line 66: an error occurred while analysing the image.\<close>

definition msg_analysis_failed :: jsstring where
  "msg_analysis_failed =
     [51060, 48120, 51648, 32, 48516, 49437, 32, 51473, 32, 50724, 47448, 44032, 32, 48156,
      49373, 54664, 49845, 45768, 45796, 46]"

text \<open>Line 88: reading the file failed.\<close>

definition msg_read_failed :: jsstring where
  "msg_read_failed =
     [54028, 51068, 51012, 32, 51069, 45716, 32, 45936, 32, 49892, 54056, 54664, 49845,
      45768, 45796, 46]"

text \<open>Line 92: an error occurred while reading the file.\<close>

definition msg_read_error :: jsstring where
  "msg_read_error =
     [54028, 51068, 32, 51069, 44592, 32, 50724, 47448, 44032, 32, 48156, 49373, 54664,
      49845, 45768, 45796, 46]"

text \<open>Line 113: the text before the message of the error: error while generating the prompt, colon, space.\<close>

definition msg_switch_failed_prefix :: jsstring where
  "msg_switch_failed_prefix =
     [54532, 47212, 54532, 53944, 32, 49373, 49457, 32, 51473, 32, 50724, 47448, 32, 48156,
      49373, 58, 32]"

subsection \<open>State\<close>

text \<open>
  The \<^verbatim>\<open>useState\<close> cells of the component, in the order of the source. Every \<^verbatim>\<open>setX(v)\<close>
  of the source stores a value that does not depend on the old one, so a handler is the
  record update of its calls.
\<close>

record App =
  appState :: AppState
  generatedImages :: "ImageInfo list"
  selectedImage :: "ImageInfo option"
  audioPrompt :: jsstring
  error :: "jsstring option"
  loadingMessage :: jsstring
  promptType :: PromptType
  isSwitchingPrompt :: bool
  lastPrompt :: jsstring

definition initialApp :: App where
  "initialApp = \<lparr> appState = IDLE, generatedImages = [], selectedImage = None,
     audioPrompt = [], error = None, loadingMessage = [], promptType = VOICE,
     isSwitchingPrompt = False, lastPrompt = [] \<rparr>"

subsection \<open>Asynchronous calls\<close>

text \<open>
  A handler of the source is an \<^verbatim>\<open>async\<close> function: it runs up to its \<^verbatim>\<open>await\<close>, and the
  rest runs when the awaited call settles. The model has one function for the first part,
  which returns the new state and the call it issued (if any), and one for the rest, which
  takes the outcome of the call. A service function of \<^verbatim>\<open>geminiService.ts\<close> resolves with
  a value or throws an \<^verbatim>\<open>Error\<close>; \<open>thrown\<close> is what a \<^verbatim>\<open>catch\<close> receives, an \<^verbatim>\<open>Error\<close> with
  its message or another value with the string \<^verbatim>\<open>String(err)\<close> gives.
\<close>

datatype thrown = ErrorObject jsstring | OtherValue jsstring

datatype 'a outcome = Resolved 'a | Rejected thrown

datatype call =
    ReadAsDataURL jsstring
  | GenerateImage jsstring
  | VoicePromptFromImage ImageInfo
  | SwitchPromptCall PromptType ImageInfo

subsection \<open>Handlers\<close>

definition handleError :: "App \<Rightarrow> jsstring \<Rightarrow> App" where
  "handleError s message = s\<lparr> error := Some message, appState := ERROR \<rparr>"

definition handleGenerateImage :: "App \<Rightarrow> jsstring \<Rightarrow> App \<times> call option" where
  "handleGenerateImage s prompt =
     (if prompt = [] then (handleError s msg_describe_first, None)
      else (s\<lparr> lastPrompt := prompt,
                appState := GENERATING_IMAGE,
                loadingMessage := msg_creating,
                error := None,
                generatedImages := [],
                selectedImage := None \<rparr>,
            Some (GenerateImage prompt)))"

definition handleGenerateImage_settled :: "App \<Rightarrow> ImageInfo list outcome \<Rightarrow> App" where
  "handleGenerateImage_settled s result =
     (case result of
        Resolved images \<Rightarrow> s\<lparr> generatedImages := images, appState := SELECTING_IMAGE \<rparr>
      | Rejected err \<Rightarrow> handleError s msg_generation_failed)"

definition handleRegenerateImages :: "App \<Rightarrow> App \<times> call option" where
  "handleRegenerateImages s =
     (if lastPrompt s \<noteq> [] then handleGenerateImage s (lastPrompt s)
      else (handleError s msg_nothing_to_regenerate, None))"

definition analyzeAndGeneratePrompt :: "App \<Rightarrow> ImageInfo \<Rightarrow> App \<times> call option" where
  "analyzeAndGeneratePrompt s img =
     (s\<lparr> appState := ANALYZING_IMAGE, loadingMessage := msg_analysing \<rparr>,
      Some (VoicePromptFromImage img))"

definition analyzeAndGeneratePrompt_settled :: "App \<Rightarrow> jsstring outcome \<Rightarrow> App" where
  "analyzeAndGeneratePrompt_settled s result =
     (case result of
        Resolved newAudioPrompt \<Rightarrow>
          s\<lparr> audioPrompt := newAudioPrompt, promptType := VOICE, appState := SHOWING_RESULT \<rparr>
      | Rejected err \<Rightarrow> handleError s msg_analysis_failed)"

definition handleImageSelect :: "App \<Rightarrow> ImageInfo \<Rightarrow> App \<times> call option" where
  "handleImageSelect s img = analyzeAndGeneratePrompt (s\<lparr> selectedImage := Some img \<rparr>) img"

text \<open>
  \<^verbatim>\<open>handleImageUpload\<close> starts a \<^verbatim>\<open>FileReader\<close>; the argument is the type of the file. The
  reader then fires \<^verbatim>\<open>onload\<close> with its result (\<open>None\<close> for \<^verbatim>\<open>null\<close>; an empty string is falsy
  as well) or \<^verbatim>\<open>onerror\<close>.
\<close>

definition handleImageUpload :: "App \<Rightarrow> jsstring \<Rightarrow> App \<times> call option" where
  "handleImageUpload s fileType =
     (s\<lparr> error := None, generatedImages := [] \<rparr>, Some (ReadAsDataURL fileType))"

definition reader_onload :: "App \<Rightarrow> jsstring \<Rightarrow> jsstring option \<Rightarrow> App \<times> call option" where
  "reader_onload s fileType result =
     (case result of
        None \<Rightarrow> (handleError s msg_read_failed, None)
      | Some base64String \<Rightarrow>
          if base64String = [] then (handleError s msg_read_failed, None)
          else (let base64Data = (case split base64String 44 of
                                    before # payload # rest \<Rightarrow> Some payload
                                  | parts \<Rightarrow> None);
                    imageInfo = \<lparr> base64 = base64Data, mimeType = fileType \<rparr>
                in analyzeAndGeneratePrompt (s\<lparr> selectedImage := Some imageInfo \<rparr>) imageInfo))"

definition reader_onerror :: "App \<Rightarrow> App" where
  "reader_onerror s = handleError s msg_read_error"

text \<open>
  \<^verbatim>\<open>handleSwitchPromptType\<close>. The call it issues is \<^verbatim>\<open>generateVoicePromptFromImage\<close> for
  \<open>VOICE\<close> and \<^verbatim>\<open>generateSoundscapePromptFromImage\<close> otherwise; \<open>SwitchPromptCall\<close> carries
  the kind. The \<^verbatim>\<open>finally\<close> block runs after either branch.
\<close>

definition handleSwitchPromptType :: "App \<Rightarrow> PromptType \<Rightarrow> App \<times> call option" where
  "handleSwitchPromptType s newType =
     (case selectedImage s of
        None \<Rightarrow> (s, None)
      | Some img \<Rightarrow>
          if isSwitchingPrompt s \<or> newType = promptType s then (s, None)
          else (s\<lparr> isSwitchingPrompt := True, error := None \<rparr>,
                Some (SwitchPromptCall newType img)))"

definition message_of :: "thrown \<Rightarrow> jsstring" where
  "message_of err = (case err of ErrorObject message \<Rightarrow> message | OtherValue string \<Rightarrow> string)"

definition handleSwitchPromptType_settled :: "App \<Rightarrow> PromptType \<Rightarrow> jsstring outcome \<Rightarrow> App" where
  "handleSwitchPromptType_settled s newType result =
     (case result of
        Resolved newPrompt \<Rightarrow> s\<lparr> audioPrompt := newPrompt, promptType := newType \<rparr>
      | Rejected err \<Rightarrow> s\<lparr> audioPrompt := msg_switch_failed_prefix @ message_of err \<rparr>)
     \<lparr> isSwitchingPrompt := False \<rparr>"

definition handleReset :: "App \<Rightarrow> App" where
  "handleReset s =
     s\<lparr> appState := IDLE,
        selectedImage := None,
        generatedImages := [],
        audioPrompt := [],
        error := None,
        loadingMessage := [],
        promptType := VOICE,
        lastPrompt := [] \<rparr>"

subsection \<open>Rendering: which triggers the user is offered\<close>

text \<open>
  \<^verbatim>\<open>renderContent\<close> decides by \<open>appState\<close> which component is shown, and the component
  decides which callbacks the user can invoke: the welcome screen submits a description
  or uploads a file; the two loading views have no control; the selection screen selects
  one of the generated images or regenerates; the result display resets or switches the
  kind of prompt (its two switch buttons are disabled while a switch is in flight); the
  error view has the reset button only. In \<open>SHOWING_RESULT\<close> without a selected image the
  function calls \<^verbatim>\<open>handleReset()\<close> itself and renders nothing.
\<close>

datatype trigger =
    GenerateSubmit jsstring
  | ImageUpload jsstring
  | SelectImage ImageInfo
  | Regenerate
  | Reset
  | SwitchPrompt PromptType

fun offered :: "App \<Rightarrow> trigger \<Rightarrow> bool" where
  "offered s (GenerateSubmit prompt) = (appState s = IDLE)"
| "offered s (ImageUpload fileType) = (appState s = IDLE)"
| "offered s (SelectImage img) = (appState s = SELECTING_IMAGE \<and> img \<in> set (generatedImages s))"
| "offered s Regenerate = (appState s = SELECTING_IMAGE)"
| "offered s Reset =
     (appState s = ERROR \<or> (appState s = SHOWING_RESULT \<and> selectedImage s \<noteq> None))"
| "offered s (SwitchPrompt newType) =
     (appState s = SHOWING_RESULT \<and> selectedImage s \<noteq> None \<and> \<not> isSwitchingPrompt s)"

definition renderContent :: "App \<Rightarrow> App" where
  "renderContent s =
     (if appState s = SHOWING_RESULT \<and> selectedImage s = None then handleReset s else s)"

definition invoke :: "App \<Rightarrow> trigger \<Rightarrow> App \<times> call option" where
  "invoke s t =
     (case t of
        GenerateSubmit prompt \<Rightarrow> handleGenerateImage s prompt
      | ImageUpload fileType \<Rightarrow> handleImageUpload s fileType
      | SelectImage img \<Rightarrow> handleImageSelect s img
      | Regenerate \<Rightarrow> handleRegenerateImages s
      | Reset \<Rightarrow> (handleReset s, None)
      | SwitchPrompt newType \<Rightarrow> handleSwitchPromptType s newType)"

subsection \<open>The session: the component and its outstanding calls\<close>

text \<open>
  JavaScript runs one handler or continuation at a time. A step of the session is a
  trigger the current view offers, or the settling of a call that is outstanding; the
  source cancels no call, so a call stays outstanding whatever happens to \<open>appState\<close>.
  After each step the component renders.
\<close>

datatype event =
    User trigger
  | FileLoaded jsstring "jsstring option"
  | FileFailed jsstring
  | ImagesSettled jsstring "ImageInfo list outcome"
  | AnalysisSettled ImageInfo "jsstring outcome"
  | SwitchSettled PromptType ImageInfo "jsstring outcome"

record session =
  app :: App
  outstanding :: "call list"

definition initialSession :: session where
  "initialSession = \<lparr> app = initialApp, outstanding = [] \<rparr>"

definition issue :: "call list \<Rightarrow> App \<times> call option \<Rightarrow> session" where
  "issue calls r =
     \<lparr> app = renderContent (fst r),
       outstanding = (case snd r of None \<Rightarrow> calls | Some c \<Rightarrow> calls @ [c]) \<rparr>"

fun step :: "session \<Rightarrow> event \<Rightarrow> session option" where
  "step x (User t) =
     (if offered (app x) t then Some (issue (outstanding x) (invoke (app x) t)) else None)"
| "step x (FileLoaded fileType result) =
     (if ReadAsDataURL fileType \<in> set (outstanding x)
      then Some (issue (remove1 (ReadAsDataURL fileType) (outstanding x))
                   (reader_onload (app x) fileType result))
      else None)"
| "step x (FileFailed fileType) =
     (if ReadAsDataURL fileType \<in> set (outstanding x)
      then Some (issue (remove1 (ReadAsDataURL fileType) (outstanding x))
                   (reader_onerror (app x), None))
      else None)"
| "step x (ImagesSettled prompt result) =
     (if GenerateImage prompt \<in> set (outstanding x)
      then Some (issue (remove1 (GenerateImage prompt) (outstanding x))
                   (handleGenerateImage_settled (app x) result, None))
      else None)"
| "step x (AnalysisSettled img result) =
     (if VoicePromptFromImage img \<in> set (outstanding x)
      then Some (issue (remove1 (VoicePromptFromImage img) (outstanding x))
                   (analyzeAndGeneratePrompt_settled (app x) result, None))
      else None)"
| "step x (SwitchSettled newType img result) =
     (if SwitchPromptCall newType img \<in> set (outstanding x)
      then Some (issue (remove1 (SwitchPromptCall newType img) (outstanding x))
                   (handleSwitchPromptType_settled (app x) newType result, None))
      else None)"

fun run :: "session \<Rightarrow> event list \<Rightarrow> session option" where
  "run x [] = Some x"
| "run x (e # es) = (case step x e of None \<Rightarrow> None | Some x' \<Rightarrow> run x' es)"

text \<open>
  The calls of a switch that are outstanding, and the statement that the flag
  \<open>isSwitchingPrompt\<close> is set exactly while there is one (and never more than one).
\<close>

fun is_switch :: "call \<Rightarrow> bool" where
  "is_switch (SwitchPromptCall newType img) = True"
| "is_switch c = False"

definition switches_outstanding :: "session \<Rightarrow> nat" where
  "switches_outstanding x = length (filter is_switch (outstanding x))"

definition guard_held :: "session \<Rightarrow> bool" where
  "guard_held x \<longleftrightarrow> switches_outstanding x = (if isSwitchingPrompt (app x) then 1 else 0)"

text \<open>Example values: a PNG file, the data URL a reader makes of it, and the image it becomes.\<close>

definition png_type :: jsstring where
  "png_type = [105, 109, 97, 103, 101, 47, 112, 110, 103]"

definition png_data_url :: jsstring where
  "png_data_url =
     [100, 97, 116, 97, 58, 105, 109, 97, 103, 101, 47, 112, 110, 103, 59, 98, 97, 115, 101,
      54, 52, 44, 105, 86, 66, 79, 82, 119, 48, 75, 71, 103, 111, 61]"

definition png_image :: ImageInfo where
  "png_image =
     \<lparr> base64 = Some [105, 86, 66, 79, 82, 119, 48, 75, 71, 103, 111, 61], mimeType = png_type \<rparr>"

text \<open>
  An example session: a description is submitted, one image comes back and is selected, its
  voice prompt arrives, and the user asks for the soundscape prompt; the switch is then in
  flight.
\<close>

definition switching_events :: "event list" where
  "switching_events =
     [User (GenerateSubmit [99, 97, 116]),
      ImagesSettled [99, 97, 116] (Resolved [png_image]),
      User (SelectImage png_image),
      AnalysisSettled png_image (Resolved [46, 46, 46]),
      User (SwitchPrompt SOUNDSCAPE)]"

definition switching_session :: session where
  "switching_session =
     \<lparr> app = initialApp\<lparr> appState := SHOWING_RESULT, generatedImages := [png_image],
               selectedImage := Some png_image, audioPrompt := [46, 46, 46],
               loadingMessage := msg_analysing, isSwitchingPrompt := True,
               lastPrompt := [99, 97, 116] \<rparr>,
       outstanding = [SwitchPromptCall SOUNDSCAPE png_image] \<rparr>"

subsection \<open>Properties of the workflow\<close>

lemmas handlers =
  handleError_def handleGenerateImage_def handleGenerateImage_settled_def
  handleRegenerateImages_def analyzeAndGeneratePrompt_def analyzeAndGeneratePrompt_settled_def
  handleImageSelect_def handleImageUpload_def reader_onload_def reader_onerror_def
  handleSwitchPromptType_def handleSwitchPromptType_settled_def handleReset_def

lemma split_png_data_url:
  "split png_data_url 44 =
   [[100, 97, 116, 97, 58, 105, 109, 97, 103, 101, 47, 112, 110, 103, 59, 98, 97, 115, 101, 54, 52],
    [105, 86, 66, 79, 82, 119, 48, 75, 71, 103, 111, 61]]"
  by (simp add: png_data_url_def)

lemma reader_onload_png:
  "reader_onload s png_type (Some png_data_url) =
     (s\<lparr> selectedImage := Some png_image, appState := ANALYZING_IMAGE,
         loadingMessage := msg_analysing \<rparr>,
      Some (VoicePromptFromImage png_image))"
proof -
  have "png_data_url \<noteq> []"
    by (simp add: png_data_url_def)
  then show ?thesis
    by (simp add: reader_onload_def split_png_data_url analyzeAndGeneratePrompt_def png_image_def Let_def)
qed

lemma filter_remove1_other:
  "\<not> P c \<Longrightarrow> filter P (remove1 c cs) = filter P cs"
  by (induction cs) auto

lemma length_filter_remove1:
  "P c \<Longrightarrow> c \<in> set cs \<Longrightarrow> Suc (length (filter P (remove1 c cs))) = length (filter P cs)"
  by (induction cs) auto

lemma isSwitching_renderContent [simp]:
  "isSwitchingPrompt (renderContent s) = isSwitchingPrompt s"
  by (simp add: renderContent_def handleReset_def)

lemma isSwitching_invoke:
  "isSwitchingPrompt (fst (invoke s t)) =
     (isSwitchingPrompt s \<or> (\<exists>c. snd (invoke s t) = Some c \<and> is_switch c))"
  by (cases t) (auto simp: invoke_def handlers split: option.splits if_splits)

lemma switch_issued_unguarded:
  "snd (invoke s t) = Some c \<Longrightarrow> is_switch c \<Longrightarrow> \<not> isSwitchingPrompt s"
  by (cases t) (auto simp: invoke_def handlers split: option.splits if_splits)

lemma guard_held_step:
  assumes "guard_held x" and "step x e = Some x'"
  shows "guard_held x'"
proof (cases e)
  case (User t)
  with assms(2) have x': "x' = issue (outstanding x) (invoke (app x) t)"
    by (simp split: if_splits)
  show ?thesis
  proof (cases "snd (invoke (app x) t)")
    case None
    with assms(1) isSwitching_invoke[of "app x" t] show ?thesis
      by (simp add: guard_held_def switches_outstanding_def x' issue_def)
  next
    case (Some c)
    show ?thesis
    proof (cases "is_switch c")
      case True
      with Some assms(1) isSwitching_invoke[of "app x" t] switch_issued_unguarded[of "app x" t c]
      show ?thesis
        by (simp add: guard_held_def switches_outstanding_def x' issue_def)
    next
      case False
      with Some assms(1) isSwitching_invoke[of "app x" t] show ?thesis
        by (simp add: guard_held_def switches_outstanding_def x' issue_def)
    qed
  qed
next
  case (FileLoaded fileType result)
  with assms show ?thesis
    by (auto simp: guard_held_def switches_outstanding_def issue_def filter_remove1_other
          reader_onload_def handleError_def analyzeAndGeneratePrompt_def Let_def
          split: if_splits option.splits)
next
  case (FileFailed fileType)
  with assms show ?thesis
    by (auto simp: guard_held_def switches_outstanding_def issue_def filter_remove1_other
          reader_onerror_def handleError_def split: if_splits)
next
  case (ImagesSettled prompt result)
  with assms show ?thesis
    by (auto simp: guard_held_def switches_outstanding_def issue_def filter_remove1_other
          handleGenerateImage_settled_def handleError_def split: if_splits outcome.splits)
next
  case (AnalysisSettled img result)
  with assms show ?thesis
    by (auto simp: guard_held_def switches_outstanding_def issue_def filter_remove1_other
          analyzeAndGeneratePrompt_settled_def handleError_def split: if_splits outcome.splits)
next
  case (SwitchSettled newType img result)
  with assms(2) have mem: "SwitchPromptCall newType img \<in> set (outstanding x)"
    and x': "x' = issue (remove1 (SwitchPromptCall newType img) (outstanding x))
                   (handleSwitchPromptType_settled (app x) newType result, None)"
    by (simp_all split: if_splits)
  from mem have "filter is_switch (outstanding x) \<noteq> []"
    by (force simp: filter_empty_conv)
  with assms(1) have one: "length (filter is_switch (outstanding x)) = 1"
    by (auto simp: guard_held_def switches_outstanding_def split: if_splits)
  have "length (filter is_switch (remove1 (SwitchPromptCall newType img) (outstanding x))) = 0"
    using length_filter_remove1[of is_switch "SwitchPromptCall newType img" "outstanding x"] mem one
    by simp
  moreover have "\<not> isSwitchingPrompt (handleSwitchPromptType_settled (app x) newType result)"
    by (simp add: handleSwitchPromptType_settled_def split: outcome.splits)
  ultimately show ?thesis
    by (simp add: guard_held_def switches_outstanding_def x' issue_def)
qed

lemma guard_held_run:
  "guard_held x \<Longrightarrow> run x es = Some x' \<Longrightarrow> guard_held x'"
proof (induction es arbitrary: x)
  case Nil
  then show ?case by simp
next
  case (Cons e es)
  then show ?case
    by (auto split: option.splits dest: guard_held_step)
qed

lemma guard_held_initial: "guard_held initialSession"
  by (simp add: guard_held_def switches_outstanding_def initialSession_def initialApp_def)

lemma switch_in_flight:
  assumes "run initialSession es = Some x" and "SwitchPromptCall t img \<in> set (outstanding x)"
  shows "isSwitchingPrompt (app x)"
proof -
  have "guard_held x"
    using guard_held_initial assms(1) by (rule guard_held_run)
  moreover from assms(2) have "filter is_switch (outstanding x) \<noteq> []"
    by (force simp: filter_empty_conv)
  ultimately show ?thesis
    by (auto simp: guard_held_def switches_outstanding_def split: if_splits)
qed

lemma run_switching_events: "run initialSession switching_events = Some switching_session"
proof -
  define a1 where "a1 = initialApp\<lparr> lastPrompt := [99, 97, 116], appState := GENERATING_IMAGE,
      loadingMessage := msg_creating \<rparr>"
  define a2 where "a2 = a1\<lparr> generatedImages := [png_image], appState := SELECTING_IMAGE \<rparr>"
  define a3 where "a3 = a2\<lparr> selectedImage := Some png_image, appState := ANALYZING_IMAGE,
      loadingMessage := msg_analysing \<rparr>"
  define a4 where "a4 = a3\<lparr> audioPrompt := [46, 46, 46], promptType := VOICE,
      appState := SHOWING_RESULT \<rparr>"
  define a5 where "a5 = a4\<lparr> isSwitchingPrompt := True, error := None \<rparr>"
  have s1: "step initialSession (User (GenerateSubmit [99, 97, 116])) =
      Some \<lparr> app = a1, outstanding = [GenerateImage [99, 97, 116]] \<rparr>"
    by (simp add: initialSession_def a1_def initialApp_def issue_def invoke_def renderContent_def
          handleGenerateImage_def)
  have s2: "step \<lparr> app = a1, outstanding = [GenerateImage [99, 97, 116]] \<rparr>
        (ImagesSettled [99, 97, 116] (Resolved [png_image])) =
      Some \<lparr> app = a2, outstanding = [] \<rparr>"
    by (simp add: a2_def a1_def issue_def renderContent_def handleGenerateImage_settled_def)
  have s3: "step \<lparr> app = a2, outstanding = [] \<rparr> (User (SelectImage png_image)) =
      Some \<lparr> app = a3, outstanding = [VoicePromptFromImage png_image] \<rparr>"
    by (simp add: a3_def a2_def a1_def issue_def invoke_def renderContent_def
          handleImageSelect_def analyzeAndGeneratePrompt_def)
  have s4: "step \<lparr> app = a3, outstanding = [VoicePromptFromImage png_image] \<rparr>
        (AnalysisSettled png_image (Resolved [46, 46, 46])) =
      Some \<lparr> app = a4, outstanding = [] \<rparr>"
    by (simp add: a4_def a3_def issue_def renderContent_def analyzeAndGeneratePrompt_settled_def)
  have s5: "step \<lparr> app = a4, outstanding = [] \<rparr> (User (SwitchPrompt SOUNDSCAPE)) =
      Some \<lparr> app = a5, outstanding = [SwitchPromptCall SOUNDSCAPE png_image] \<rparr>"
    by (simp add: a5_def a4_def a3_def a2_def a1_def initialApp_def issue_def invoke_def
          renderContent_def handleSwitchPromptType_def)
  have "a5 = initialApp\<lparr> appState := SHOWING_RESULT, generatedImages := [png_image],
                 selectedImage := Some png_image, audioPrompt := [46, 46, 46],
                 loadingMessage := msg_analysing, isSwitchingPrompt := True,
                 lastPrompt := [99, 97, 116] \<rparr>"
    by (simp add: a5_def a4_def a3_def a2_def a1_def initialApp_def)
  then show ?thesis
    by (simp only: switching_events_def switching_session_def run.simps s1 s2 s3 s4 s5
          option.case)
qed

text \<open>
  Claim C3. From any state in \<open>IDLE\<close>: a non-empty description is accepted and the state is
  \<open>GENERATING_IMAGE\<close> with the image call issued; when that call resolves with a non-empty
  list of images the state is \<open>SELECTING_IMAGE\<close> with the images stored; each of them can be
  selected, which gives \<open>ANALYZING_IMAGE\<close> with that image as the selected one and the
  analysis call issued; when the prompt text arrives the state is \<open>SHOWING_RESULT\<close> with kind
  \<open>VOICE\<close>; and the reset then gives \<open>IDLE\<close> with the images, the selected image, the
  prompt text, the error, the last description and the kind at their initial values.
\<close>

theorem workflow_scenario:
  assumes "appState s0 = IDLE" and "description \<noteq> []" and "images \<noteq> []" and "img \<in> set images"
  shows "let s1 = fst (handleGenerateImage s0 description);
             s2 = handleGenerateImage_settled s1 (Resolved images);
             s3 = fst (handleImageSelect s2 img);
             s4 = analyzeAndGeneratePrompt_settled s3 (Resolved newAudioPrompt)
         in offered s0 (GenerateSubmit description) \<and>
            appState s1 = GENERATING_IMAGE \<and>
            snd (handleGenerateImage s0 description) = Some (GenerateImage description) \<and>
            appState s2 = SELECTING_IMAGE \<and> generatedImages s2 = images \<and>
            offered s2 (SelectImage img) \<and>
            appState s3 = ANALYZING_IMAGE \<and> selectedImage s3 = Some img \<and>
            snd (handleImageSelect s2 img) = Some (VoicePromptFromImage img) \<and>
            appState s4 = SHOWING_RESULT \<and> promptType s4 = VOICE \<and>
            audioPrompt s4 = newAudioPrompt \<and> selectedImage s4 = Some img \<and>
            offered s4 Reset \<and>
            appState (handleReset s4) = IDLE \<and> generatedImages (handleReset s4) = [] \<and>
            selectedImage (handleReset s4) = None \<and> audioPrompt (handleReset s4) = [] \<and>
            error (handleReset s4) = None \<and> lastPrompt (handleReset s4) = [] \<and>
            promptType (handleReset s4) = VOICE \<and>
            handleReset s4 = initialApp\<lparr> isSwitchingPrompt := isSwitchingPrompt s0 \<rparr>"
  using assms by (simp add: handlers initialApp_def Let_def)

theorem workflow_scenario_witness:
  "appState initialApp = IDLE \<and> [99, 97, 116 :: 16 word] \<noteq> [] \<and>
   [png_image, png_image, png_image] \<noteq> [] \<and>
   png_image \<in> set [png_image, png_image, png_image] \<and>
   appState (fst (handleGenerateImage initialApp [99, 97, 116])) = GENERATING_IMAGE \<and>
   handleReset
     (analyzeAndGeneratePrompt_settled
        (fst (handleImageSelect
                (handleGenerateImage_settled (fst (handleGenerateImage initialApp [99, 97, 116]))
                   (Resolved [png_image, png_image, png_image]))
                png_image))
        (Resolved [46, 46, 46])) = initialApp"
proof -
  have h: "appState initialApp = IDLE" "[99, 97, 116 :: 16 word] \<noteq> []"
    "[png_image, png_image, png_image] \<noteq> []"
    "png_image \<in> set [png_image, png_image, png_image]"
    by (simp_all add: initialApp_def)
  have i: "initialApp\<lparr> isSwitchingPrompt := isSwitchingPrompt initialApp \<rparr> = initialApp"
    by simp
  from workflow_scenario[OF h, of "[46, 46, 46]"] h show ?thesis
    unfolding Let_def i by blast
qed

text \<open>
  Claim C7. A call of \<open>handleSwitchPromptType\<close> with the flag \<open>isSwitchingPrompt\<close> set, or
  with the kind that is already current, returns the state as it is and issues no call.
  In every session reachable from the initial one the flag is set while a switch is in
  flight (\<open>switch_in_flight\<close>), so a call made then changes nothing either, and the
  result display does not offer the trigger. A handler reads the state as of the last
  render; a click is rendered before the next one is handled, which is why the model
  reads the current state.
\<close>

theorem switch_rejected:
  "(isSwitchingPrompt s \<or> newType = promptType s \<longrightarrow>
      handleSwitchPromptType s newType = (s, None)) \<and>
   (run initialSession es = Some x \<and> SwitchPromptCall t img \<in> set (outstanding x) \<longrightarrow>
      handleSwitchPromptType (app x) newType' = (app x, None) \<and>
      \<not> offered (app x) (SwitchPrompt newType'))"
proof (intro conjI impI)
  assume "isSwitchingPrompt s \<or> newType = promptType s"
  then show "handleSwitchPromptType s newType = (s, None)"
    by (auto simp: handleSwitchPromptType_def split: option.splits)
next
  assume "run initialSession es = Some x \<and> SwitchPromptCall t img \<in> set (outstanding x)"
  then have f: "isSwitchingPrompt (app x)"
    using switch_in_flight by blast
  then show "handleSwitchPromptType (app x) newType' = (app x, None)"
    by (auto simp: handleSwitchPromptType_def split: option.splits)
  from f show "\<not> offered (app x) (SwitchPrompt newType')"
    by simp
qed

theorem switch_rejected_witness:
  "VOICE = promptType (initialApp\<lparr> selectedImage := Some png_image \<rparr>) \<and>
   handleSwitchPromptType (initialApp\<lparr> selectedImage := Some png_image \<rparr>) VOICE =
     (initialApp\<lparr> selectedImage := Some png_image \<rparr>, None) \<and>
   run initialSession switching_events = Some switching_session \<and>
   SwitchPromptCall SOUNDSCAPE png_image \<in> set (outstanding switching_session) \<and>
   handleSwitchPromptType (app switching_session) VOICE = (app switching_session, None) \<and>
   \<not> offered (app switching_session) (SwitchPrompt VOICE)"
proof -
  have a: "VOICE = promptType (initialApp\<lparr> selectedImage := Some png_image \<rparr>)"
    by (simp add: initialApp_def)
  have b: "SwitchPromptCall SOUNDSCAPE png_image \<in> set (outstanding switching_session)"
    by (simp add: switching_session_def)
  from switch_rejected[of "initialApp\<lparr> selectedImage := Some png_image \<rparr>" VOICE
      switching_events switching_session SOUNDSCAPE png_image VOICE]
    a b run_switching_events
  show ?thesis by blast
qed

text \<open>
  Claim C8. An accepted switch sets the flag and issues the call for the new kind. When the
  call fails, the prompt text becomes the fixed prefix followed by the message of the
  error, the kind stays what it was, and the flag is cleared; the flag is cleared for
  every outcome of the call, whatever was thrown.
\<close>

theorem switch_failure_keeps_kind:
  assumes "selectedImage s = Some img" and "\<not> isSwitchingPrompt s" and "newType \<noteq> promptType s"
  shows "let s1 = fst (handleSwitchPromptType s newType);
             failed = handleSwitchPromptType_settled s1 newType (Rejected err)
         in snd (handleSwitchPromptType s newType) = Some (SwitchPromptCall newType img) \<and>
            isSwitchingPrompt s1 \<and>
            audioPrompt failed = msg_switch_failed_prefix @ message_of err \<and>
            promptType failed = promptType s \<and>
            \<not> isSwitchingPrompt failed \<and>
            \<not> isSwitchingPrompt (handleSwitchPromptType_settled s1 newType result)"
  using assms by (simp add: handlers Let_def split: outcome.splits)

theorem switch_failure_keeps_kind_witness:
  "selectedImage (initialApp\<lparr> selectedImage := Some png_image \<rparr>) = Some png_image \<and>
   \<not> isSwitchingPrompt (initialApp\<lparr> selectedImage := Some png_image \<rparr>) \<and>
   SOUNDSCAPE \<noteq> promptType (initialApp\<lparr> selectedImage := Some png_image \<rparr>) \<and>
   handleSwitchPromptType (initialApp\<lparr> selectedImage := Some png_image \<rparr>) SOUNDSCAPE =
     (initialApp\<lparr> selectedImage := Some png_image, isSwitchingPrompt := True \<rparr>,
      Some (SwitchPromptCall SOUNDSCAPE png_image)) \<and>
   handleSwitchPromptType_settled
     (initialApp\<lparr> selectedImage := Some png_image, isSwitchingPrompt := True \<rparr>) SOUNDSCAPE
     (Rejected (ErrorObject [52, 50, 57])) =
     initialApp\<lparr> selectedImage := Some png_image,
                  audioPrompt := msg_switch_failed_prefix @ [52, 50, 57] \<rparr>"
  using switch_failure_keeps_kind[of "initialApp\<lparr> selectedImage := Some png_image \<rparr>" png_image SOUNDSCAPE
        "ErrorObject [52, 50, 57]" "Rejected (ErrorObject [52, 50, 57])"]
  by (simp add: initialApp_def handleSwitchPromptType_def handleSwitchPromptType_settled_def
        message_of_def)

text \<open>
  Claim C9, as the code has it. A failed image generation gives \<open>ERROR\<close> with the message of
  line 45 stored; in \<open>ERROR\<close> the only trigger the user is offered is the reset; the reset
  gives \<open>IDLE\<close> with the images, the selected image and the prompt text cleared. The
  settling of a call that is still outstanding is not held back by \<open>ERROR\<close>: an analysis
  that resolves moves the state to \<open>SHOWING_RESULT\<close>.
\<close>

theorem generation_failure_and_reset:
  "appState (handleGenerateImage_settled s (Rejected err)) = ERROR \<and>
   error (handleGenerateImage_settled s (Rejected err)) = Some msg_generation_failed \<and>
   (appState s' = ERROR \<longrightarrow> offered s' t = (t = Reset)) \<and>
   appState (handleReset s') = IDLE \<and> generatedImages (handleReset s') = [] \<and>
   selectedImage (handleReset s') = None \<and> audioPrompt (handleReset s') = [] \<and>
   appState (analyzeAndGeneratePrompt_settled s' (Resolved newAudioPrompt)) = SHOWING_RESULT"
  by (cases t) (simp_all add: handlers)

theorem generation_failure_and_reset_witness:
  "appState (handleError initialApp msg_generation_failed) = ERROR \<and>
   offered (handleError initialApp msg_generation_failed) Reset \<and>
   \<not> offered (handleError initialApp msg_generation_failed) (GenerateSubmit [99, 97, 116]) \<and>
   handleReset (handleError initialApp msg_generation_failed) = initialApp"
  using generation_failure_and_reset[of initialApp "ErrorObject []" "handleError initialApp msg_generation_failed" Reset "[]"]
    generation_failure_and_reset[of initialApp "ErrorObject []" "handleError initialApp msg_generation_failed"
       "GenerateSubmit [99, 97, 116]" "[]"]
  by (simp add: handleError_def handleReset_def initialApp_def)

text \<open>
  The claim as it is written fails in this session: the user picks a file and, while it is
  being read, submits a description; the file is read and its analysis starts; the image
  generation fails, which gives \<open>ERROR\<close> with the analysis still outstanding; the analysis
  resolves, and the state is \<open>SHOWING_RESULT\<close> without any reset.
\<close>

theorem error_left_without_reset:
  "map_option (\<lambda>x. (appState (app x), outstanding x))
     (run initialSession
        [User (ImageUpload png_type),
         User (GenerateSubmit [99, 97, 116]),
         FileLoaded png_type (Some png_data_url),
         ImagesSettled [99, 97, 116] (Rejected (ErrorObject []))])
     = Some (ERROR, [VoicePromptFromImage png_image]) \<and>
   map_option (\<lambda>x. appState (app x))
     (run initialSession
        [User (ImageUpload png_type),
         User (GenerateSubmit [99, 97, 116]),
         FileLoaded png_type (Some png_data_url),
         ImagesSettled [99, 97, 116] (Rejected (ErrorObject [])),
         AnalysisSettled png_image (Resolved [46, 46, 46])])
     = Some SHOWING_RESULT"
proof -
  define a2 where "a2 = initialApp\<lparr> lastPrompt := [99, 97, 116], appState := GENERATING_IMAGE,
      loadingMessage := msg_creating \<rparr>"
  define a3 where "a3 = a2\<lparr> selectedImage := Some png_image, appState := ANALYZING_IMAGE,
      loadingMessage := msg_analysing \<rparr>"
  define a4 where "a4 = a3\<lparr> error := Some msg_generation_failed, appState := ERROR \<rparr>"
  define a5 where "a5 = a4\<lparr> audioPrompt := [46, 46, 46], promptType := VOICE,
      appState := SHOWING_RESULT \<rparr>"
  define x1 where "x1 = \<lparr> app = initialApp, outstanding = [ReadAsDataURL png_type] \<rparr>"
  define x2 where "x2 = \<lparr> app = a2, outstanding = [ReadAsDataURL png_type, GenerateImage [99, 97, 116]] \<rparr>"
  define x3 where "x3 = \<lparr> app = a3,
      outstanding = [GenerateImage [99, 97, 116], VoicePromptFromImage png_image] \<rparr>"
  define x4 where "x4 = \<lparr> app = a4, outstanding = [VoicePromptFromImage png_image] \<rparr>"
  define x5 where "x5 = \<lparr> app = a5, outstanding = [] \<rparr>"
  have s1: "step initialSession (User (ImageUpload png_type)) = Some x1"
    by (simp add: initialSession_def initialApp_def issue_def invoke_def renderContent_def
          handleImageUpload_def x1_def)
  have s2: "step x1 (User (GenerateSubmit [99, 97, 116])) = Some x2"
    by (simp add: x1_def x2_def a2_def initialApp_def issue_def invoke_def renderContent_def
          handleGenerateImage_def)
  have s3: "step x2 (FileLoaded png_type (Some png_data_url)) = Some x3"
    by (simp add: x2_def x3_def a3_def a2_def initialApp_def issue_def renderContent_def
          reader_onload_png)
  have s4: "step x3 (ImagesSettled [99, 97, 116] (Rejected (ErrorObject []))) = Some x4"
    by (simp add: x3_def x4_def a4_def a3_def issue_def renderContent_def
          handleGenerateImage_settled_def handleError_def)
  have s5: "step x4 (AnalysisSettled png_image (Resolved [46, 46, 46])) = Some x5"
    by (simp add: x4_def x5_def a5_def a4_def a3_def issue_def renderContent_def
          analyzeAndGeneratePrompt_settled_def)
  have r4: "run initialSession
        [User (ImageUpload png_type),
         User (GenerateSubmit [99, 97, 116]),
         FileLoaded png_type (Some png_data_url),
         ImagesSettled [99, 97, 116] (Rejected (ErrorObject []))] = Some x4"
    by (simp only: run.simps s1 s2 s3 s4 option.case)
  have r5: "run initialSession
        [User (ImageUpload png_type),
         User (GenerateSubmit [99, 97, 116]),
         FileLoaded png_type (Some png_data_url),
         ImagesSettled [99, 97, 116] (Rejected (ErrorObject [])),
         AnalysisSettled png_image (Resolved [46, 46, 46])] = Some x5"
    by (simp only: run.simps s1 s2 s3 s4 s5 option.case)
  show ?thesis
    unfolding r4 r5 by (simp add: x4_def x5_def a4_def a5_def)
qed

text \<open>
  Claim C10. Submitting the empty description gives \<open>ERROR\<close> with the message of line 30,
  issues no call and leaves the remembered description as it was; from \<open>IDLE\<close> the welcome
  screen offers the trigger, so this is a step of the session.
\<close>

theorem empty_description_is_error:
  "appState (fst (handleGenerateImage s [])) = ERROR \<and>
   error (fst (handleGenerateImage s [])) = Some msg_describe_first \<and>
   snd (handleGenerateImage s []) = None \<and>
   lastPrompt (fst (handleGenerateImage s [])) = lastPrompt s \<and>
   (appState s = IDLE \<longrightarrow>
      step \<lparr> app = s, outstanding = calls \<rparr> (User (GenerateSubmit [])) =
        Some \<lparr> app = handleError s msg_describe_first, outstanding = calls \<rparr>)"
  by (simp add: handlers issue_def invoke_def renderContent_def)

theorem empty_description_is_error_witness:
  "appState initialApp = IDLE \<and>
   step initialSession (User (GenerateSubmit [])) =
     Some \<lparr> app = initialApp\<lparr> error := Some msg_describe_first, appState := ERROR \<rparr>,
            outstanding = [] \<rparr>"
  using empty_description_is_error[of initialApp "[]"]
  by (simp add: initialSession_def initialApp_def handleError_def)

section \<open>Playback controller (ResultDisplay.tsx)\<close>

subsection \<open>Decoding the payload (decode)\<close>

text \<open>
  \<^verbatim>\<open>atob\<close> is the forgiving base64 decoder of the platform: ASCII white space is removed;
  when the length is then a multiple of 4, one or two \<^verbatim>\<open>=\<close> at the end are removed; a length
  of 1 modulo 4 or a character outside the alphabet throws \<^verbatim>\<open>InvalidCharacterError\<close>; every
  character stands for 6 bits, every 24 bits are three bytes, and of 12 or 18 bits left at
  the end the last 4 or 2 are dropped. The result is a string with one code unit per byte.
\<close>

definition isAsciiWhitespace :: "16 word \<Rightarrow> bool" where
  "isAsciiWhitespace c \<longleftrightarrow> c \<in> set [0x9, 0xA, 0xC, 0xD, 0x20]"

definition base64_digit :: "16 word \<Rightarrow> nat option" where
  "base64_digit c =
     (if 65 \<le> c \<and> c \<le> 90 then Some (unat c - 65)
      else if 97 \<le> c \<and> c \<le> 122 then Some (unat c - 71)
      else if 48 \<le> c \<and> c \<le> 57 then Some (unat c + 4)
      else if c = 43 then Some 62
      else if c = 47 then Some 63
      else None)"

definition strip_padding :: "jsstring \<Rightarrow> jsstring" where
  "strip_padding d =
     (if length d mod 4 = 0 \<and> d \<noteq> [] \<and> last d = 61
      then (if butlast d \<noteq> [] \<and> last (butlast d) = 61 then butlast (butlast d) else butlast d)
      else d)"

fun sextets_to_bytes :: "nat list \<Rightarrow> nat list" where
  "sextets_to_bytes (a # b # c # d # rest) =
     (a * 4 + b div 16) # (b mod 16 * 16 + c div 4) # (c mod 4 * 64 + d) # sextets_to_bytes rest"
| "sextets_to_bytes [a, b, c] = [a * 4 + b div 16, b mod 16 * 16 + c div 4]"
| "sextets_to_bytes [a, b] = [a * 4 + b div 16]"
| "sextets_to_bytes rest = []"

definition atob :: "jsstring \<Rightarrow> js_error + jsstring" where
  "atob encoded =
     (let d = strip_padding (filter (\<lambda>c. \<not> isAsciiWhitespace c) encoded) in
      if length d mod 4 = 1 \<or> None \<in> set (map base64_digit d) then Inl InvalidCharacterError
      else Inr (map word_of_nat (sextets_to_bytes (map (\<lambda>c. the (base64_digit c)) d))))"

text \<open>\<^verbatim>\<open>decode\<close> copies the code units of the binary string into a \<^verbatim>\<open>Uint8Array\<close>.\<close>

definition decode :: "jsstring \<Rightarrow> js_error + byte list" where
  "decode b64 =
     (case atob b64 of
        Inl e \<Rightarrow> Inl e
      | Inr binaryString \<Rightarrow> Inr (map ucast binaryString))"

subsection \<open>State\<close>

text \<open>Line 273: the audio context has not been initialised.\<close>

definition msg_no_context :: jsstring where
  "msg_no_context =
     [50724, 46356, 50724, 32, 52968, 53581, 49828, 53944, 44032, 32, 52488, 44592, 54868,
      46104, 51648, 32, 50506, 50520, 49845, 45768, 45796, 46]"

text \<open>Line 247: an unknown error occurred.\<close>

definition msg_unknown_error :: jsstring where
  "msg_unknown_error =
     [50508, 32, 49688, 32, 50630, 45716, 32, 50724, 47448, 44032, 32, 48156, 49373, 54664,
      49845, 45768, 45796, 46]"

text \<open>Line 260: playing the audio failed.\<close>

definition msg_playback_failed :: jsstring where
  "msg_playback_failed =
     [50724, 46356, 50724, 32, 51116, 49373, 50640, 32, 49892, 54056, 54664, 49845, 45768,
      45796, 46]"

text \<open>
  An \<^verbatim>\<open>AudioBufferSourceNode\<close> that was started is \<open>Playing\<close>; after \<^verbatim>\<open>stop()\<close> it is
  \<open>Stopped\<close>, silent, with its \<^verbatim>\<open>ended\<close> event still to be dispatched; after the event it is
  \<open>Ended\<close>. A source that plays to its end goes from \<open>Playing\<close> to \<open>Ended\<close> with the event.
  The nodes the component has created are numbered in the order of their creation.
\<close>

datatype source_state = Playing | Stopped | Ended

text \<open>
  What a \<^verbatim>\<open>catch\<close> block of the component can receive: an exception of the platform, or a
  value thrown by a service function. \<open>message_or\<close> is
  \<^verbatim>\<open>error instanceof Error ? error.message : fallback\<close>; the text of a platform exception is
  the browser's.
\<close>

datatype caught = PlatformError js_error | Thrown thrown

datatype audio_message = MessageOf js_error | Text jsstring

definition message_or :: "caught \<Rightarrow> jsstring \<Rightarrow> audio_message" where
  "message_or err fallback =
     (case err of
        PlatformError e \<Rightarrow> MessageOf e
      | Thrown (ErrorObject message) \<Rightarrow> Text message
      | Thrown (OtherValue v) \<Rightarrow> Text fallback)"

text \<open>
  The cells and refs of the component that playback uses, then the two parts of the
  environment they refer to: the source nodes created so far, and the number of
  \<^verbatim>\<open>generateSpeech\<close> calls that are outstanding.
\<close>

record playback =
  audioCtxRef :: "AudioContext option"
  activeAudioSourceRef :: "nat option"
  isGeneratingAudio :: bool
  isPlayingAudio :: bool
  generatedAudioData :: "jsstring option"
  audioError :: "audio_message option"
  sources :: "source_state list"
  speechCalls :: nat

text \<open>The component after its mount effect has created the audio context.\<close>

definition mounted :: "AudioContext \<Rightarrow> playback" where
  "mounted ctx =
     \<lparr> audioCtxRef = Some ctx, activeAudioSourceRef = None, isGeneratingAudio = False,
       isPlayingAudio = False, generatedAudioData = None, audioError = None,
       sources = [], speechCalls = 0 \<rparr>"

subsection \<open>Handlers\<close>

text \<open>\<^verbatim>\<open>source.stop()\<close> on a source that was started; a second call changes nothing.\<close>

definition stop :: "source_state list \<Rightarrow> nat \<Rightarrow> source_state list" where
  "stop nodes source =
     (if source < length nodes \<and> nodes ! source = Playing then nodes[source := Stopped]
      else nodes)"

text \<open>
  \<^verbatim>\<open>playDecodedAudio\<close>. The \<^verbatim>\<open>await\<close> on \<^verbatim>\<open>decodeAudioData\<close>, a function without an
  \<^verbatim>\<open>await\<close> of its own, is resumed before any other event is handled, so the function is
  one step. Creating, connecting and starting the source do not throw.
\<close>

definition playDecodedAudio :: "playback \<Rightarrow> jsstring \<Rightarrow> caught + playback" where
  "playDecodedAudio x base64Audio =
     (case decode base64Audio of
        Inl e \<Rightarrow> Inl (PlatformError e)
      | Inr audioBytes \<Rightarrow>
          (case audioCtxRef x of
             None \<Rightarrow> Inl (Thrown (ErrorObject msg_no_context))
           | Some ctx \<Rightarrow>
               (case decodeAudioData audioBytes ctx 24000 1 of
                  Inl e \<Rightarrow> Inl (PlatformError e)
                | Inr audioBuffer \<Rightarrow>
                    Inr (x\<lparr> sources := sources x @ [Playing],
                            activeAudioSourceRef := Some (length (sources x)),
                            isPlayingAudio := True \<rparr>))))"

text \<open>The \<^verbatim>\<open>onended\<close> handler that \<^verbatim>\<open>playDecodedAudio\<close> installs on the source.\<close>

definition onended :: "playback \<Rightarrow> nat \<Rightarrow> playback" where
  "onended x source =
     x\<lparr> sources := (sources x)[source := Ended],
        isPlayingAudio := False,
        activeAudioSourceRef := None \<rparr>"

text \<open>
  \<^verbatim>\<open>handlePlayAudio\<close> up to the point where it waits for \<^verbatim>\<open>generateSpeech\<close>; with audio
  data at hand it does not wait for anything but \<open>playDecodedAudio\<close> and runs to its end.
  The test \<^verbatim>\<open>!generatedAudioData\<close> holds for \<^verbatim>\<open>null\<close> and for the empty string.
\<close>

definition handlePlayAudio :: "playback \<Rightarrow> playback" where
  "handlePlayAudio x =
     (case activeAudioSourceRef x of
        Some source \<Rightarrow> x\<lparr> sources := stop (sources x) source \<rparr>
      | None \<Rightarrow>
          if isGeneratingAudio x then x
          else (let x1 = x\<lparr> isGeneratingAudio := True, audioError := None \<rparr> in
                if generatedAudioData x1 = None \<or> generatedAudioData x1 = Some []
                then x1\<lparr> speechCalls := speechCalls x1 + 1 \<rparr>
                else (case playDecodedAudio x1 (the (generatedAudioData x1)) of
                        Inr x2 \<Rightarrow> x2
                      | Inl err \<Rightarrow>
                          x1\<lparr> audioError := Some (message_or err msg_playback_failed) \<rparr>)
                     \<lparr> isGeneratingAudio := False \<rparr>))"

text \<open>The rest of \<^verbatim>\<open>handlePlayAudio\<close>, when the \<^verbatim>\<open>generateSpeech\<close> call has settled.\<close>

definition handlePlayAudio_settled :: "playback \<Rightarrow> jsstring outcome \<Rightarrow> playback" where
  "handlePlayAudio_settled x result =
     (case (case result of
              Resolved base64Audio \<Rightarrow>
                (case playDecodedAudio (x\<lparr> generatedAudioData := Some base64Audio \<rparr>) base64Audio of
                   Inr x2 \<Rightarrow> Inr x2
                 | Inl err \<Rightarrow> Inl (err, x\<lparr> generatedAudioData := Some base64Audio \<rparr>))
            | Rejected err \<Rightarrow> Inl (Thrown err, x)) of
        Inr x2 \<Rightarrow> x2
      | Inl (err, x1) \<Rightarrow>
          x1\<lparr> audioError := Some (message_or err msg_unknown_error),
              isPlayingAudio := False,
              activeAudioSourceRef := None \<rparr>)
     \<lparr> isGeneratingAudio := False \<rparr>"

text \<open>
  The effects of the component that touch playback: the one on the prompt (it forgets the
  audio data and stops the active source), the one on the voice selection (it forgets the
  audio data), and the clean-up on unmount (it stops the active source).
\<close>

definition stop_active :: "playback \<Rightarrow> playback" where
  "stop_active x =
     (case activeAudioSourceRef x of
        None \<Rightarrow> x
      | Some source \<Rightarrow> x\<lparr> sources := stop (sources x) source \<rparr>)"

definition prompt_effect :: "playback \<Rightarrow> playback" where
  "prompt_effect x = stop_active (x\<lparr> generatedAudioData := None \<rparr>)"

definition voice_effect :: "playback \<Rightarrow> playback" where
  "voice_effect x = x\<lparr> generatedAudioData := None \<rparr>"

subsection \<open>Steps of the controller\<close>

text \<open>
  One handler or continuation runs at a time: a call of the toggle, the settling of an
  outstanding \<^verbatim>\<open>generateSpeech\<close> call, the \<^verbatim>\<open>ended\<close> event of a source that has not had it
  yet, or one of the effects. The toggle reads the state as of the last render, and a
  click is rendered before the next one is handled, so the model reads the current state.
\<close>

datatype audio_event =
    Toggle
  | SpeechSettled "jsstring outcome"
  | SourceEnded nat
  | PromptChanged
  | VoiceChanged
  | Unmounted

fun audio_step :: "playback \<Rightarrow> audio_event \<Rightarrow> playback option" where
  "audio_step x Toggle = Some (handlePlayAudio x)"
| "audio_step x (SpeechSettled result) =
     (if 0 < speechCalls x
      then Some (handlePlayAudio_settled (x\<lparr> speechCalls := speechCalls x - 1 \<rparr>) result)
      else None)"
| "audio_step x (SourceEnded source) =
     (if source < length (sources x) \<and> sources x ! source \<noteq> Ended
      then Some (onended x source)
      else None)"
| "audio_step x PromptChanged = Some (prompt_effect x)"
| "audio_step x VoiceChanged = Some (voice_effect x)"
| "audio_step x Unmounted = Some (stop_active x)"

fun audio_run :: "playback \<Rightarrow> audio_event list \<Rightarrow> playback option" where
  "audio_run x [] = Some x"
| "audio_run x (e # es) = (case audio_step x e of None \<Rightarrow> None | Some x' \<Rightarrow> audio_run x' es)"

text \<open>
  The sources that produce sound. The controller is playing when there is one and idle
  when there is none.
\<close>

definition live :: "playback \<Rightarrow> nat" where
  "live x = length (filter (\<lambda>s. s = Playing) (sources x))"

text \<open>
  The invariant behind the single source: a source that has not ended is the one the ref
  holds, and while a \<^verbatim>\<open>generateSpeech\<close> call is outstanding (there is at most one) the
  generation flag is set and the ref is empty.
\<close>

definition single_source :: "playback \<Rightarrow> bool" where
  "single_source x \<longleftrightarrow>
     (\<forall>s < length (sources x). sources x ! s \<noteq> Ended \<longrightarrow> activeAudioSourceRef x = Some s) \<and>
     (0 < speechCalls x \<longrightarrow> isGeneratingAudio x \<and> activeAudioSourceRef x = None) \<and>
     speechCalls x \<le> 1"

text \<open>Example payload: \<^verbatim>\<open>AAA=\<close>, two zero bytes, one silent sample.\<close>

definition silent_payload :: jsstring where
  "silent_payload = [65, 65, 65, 61]"

text \<open>
  Example states: the controller playing the example payload after the first toggle and
  the arrival of the speech, and the controller idle again, with the payload at hand,
  after a second toggle and the \<^verbatim>\<open>ended\<close> event.
\<close>

definition playing_example :: playback where
  "playing_example =
     \<lparr> audioCtxRef = Some audioCtx, activeAudioSourceRef = Some 0, isGeneratingAudio = False,
       isPlayingAudio = True, generatedAudioData = Some silent_payload, audioError = None,
       sources = [Playing], speechCalls = 0 \<rparr>"

definition idle_example :: playback where
  "idle_example =
     \<lparr> audioCtxRef = Some audioCtx, activeAudioSourceRef = None, isGeneratingAudio = False,
       isPlayingAudio = False, generatedAudioData = Some silent_payload, audioError = None,
       sources = [Ended], speechCalls = 0 \<rparr>"

text \<open>
  Vocabulary for the results below. An asset is \<open>playable\<close> when \<open>playDecodedAudio\<close> does
  not throw on it: it decodes, there is a context, and the bytes convert. The controller
  is \<open>ready\<close> with an asset when, by its own cells, it is idle (the ref is empty and no
  generation is running) and holds that asset, playable.
\<close>

definition playable :: "playback \<Rightarrow> jsstring \<Rightarrow> bool" where
  "playable x audioData \<longleftrightarrow> \<not> isl (playDecodedAudio x audioData)"

definition ready :: "playback \<Rightarrow> jsstring \<Rightarrow> bool" where
  "ready x audioData \<longleftrightarrow>
     activeAudioSourceRef x = None \<and> \<not> isGeneratingAudio x \<and>
     generatedAudioData x = Some audioData \<and> playable x audioData"

text \<open>
  Every mount of the result display is an instance of the controller with a ref, a
  context and outstanding calls of its own; the sources that sound at a time are those
  of all instances, the unmounted ones included.
\<close>

definition live_all :: "playback list \<Rightarrow> nat" where
  "live_all instances = sum_list (map live instances)"

text \<open>
  A third example state: the controller after the second toggle and before the \<^verbatim>\<open>ended\<close>
  event of the source it stopped.
\<close>

definition stopped_example :: playback where
  "stopped_example =
     \<lparr> audioCtxRef = Some audioCtx, activeAudioSourceRef = Some 0, isGeneratingAudio = False,
       isPlayingAudio = True, generatedAudioData = Some silent_payload, audioError = None,
       sources = [Stopped], speechCalls = 0 \<rparr>"

subsection \<open>Properties of the controller\<close>

lemma length_stop [simp]: "length (stop nodes source) = length nodes"
  by (simp add: stop_def)

lemma stop_not_ended [simp]:
  "i < length nodes \<Longrightarrow> (stop nodes source ! i = Ended) = (nodes ! i = Ended)"
  by (auto simp: stop_def nth_list_update)

lemma playDecodedAudio_Inr:
  "playDecodedAudio x base64Audio = Inr x2 \<Longrightarrow>
   x2 = x\<lparr> sources := sources x @ [Playing],
           activeAudioSourceRef := Some (length (sources x)),
           isPlayingAudio := True \<rparr>"
  by (auto simp: playDecodedAudio_def split: sum.splits option.splits)

lemma single_source_started:
  assumes "single_source x" and "activeAudioSourceRef x = None" and "speechCalls x = 0"
  shows "single_source (x\<lparr> sources := sources x @ [Playing],
           activeAudioSourceRef := Some (length (sources x)),
           isPlayingAudio := True, isGeneratingAudio := False \<rparr>)"
proof -
  from assms(1,2) have ended: "\<forall>s < length (sources x). sources x ! s = Ended"
    by (auto simp: single_source_def)
  show ?thesis
    unfolding single_source_def using ended assms(3)
    by (auto simp: nth_append less_Suc_eq)
qed

lemma single_source_stop_active: "single_source x \<Longrightarrow> single_source (stop_active x)"
  by (auto simp: single_source_def stop_active_def split: option.splits)

lemma single_source_handlePlayAudio:
  assumes "single_source x"
  shows "single_source (handlePlayAudio x)"
proof (cases "activeAudioSourceRef x")
  case (Some source)
  with assms show ?thesis
    by (auto simp: handlePlayAudio_def single_source_def)
next
  case None
  show ?thesis
  proof (cases "isGeneratingAudio x")
    case True
    with None assms show ?thesis by (simp add: handlePlayAudio_def)
  next
    case False
    with assms have calls: "speechCalls x = 0"
      by (auto simp: single_source_def)
    show ?thesis
    proof (cases "generatedAudioData x = None \<or> generatedAudioData x = Some []")
      case True
      from assms None calls have "single_source (x\<lparr> isGeneratingAudio := True, audioError := None,
          speechCalls := 1 \<rparr>)"
        by (simp add: single_source_def)
      with None False True calls show ?thesis
        by (auto simp: handlePlayAudio_def Let_def)
    next
      case cached: False
      from cached obtain audioData where gad: "generatedAudioData x = Some audioData"
        and nonempty: "audioData \<noteq> []"
        by (cases "generatedAudioData x") auto
      define x1 where "x1 = x\<lparr> isGeneratingAudio := True, audioError := None \<rparr>"
      have x1: "single_source x1" "activeAudioSourceRef x1 = None" "speechCalls x1 = 0"
        using assms None calls by (simp_all add: x1_def single_source_def)
      have eq: "handlePlayAudio x =
          (case playDecodedAudio x1 audioData of
             Inr x2 \<Rightarrow> x2
           | Inl err \<Rightarrow> x1\<lparr> audioError := Some (message_or err msg_playback_failed) \<rparr>)
          \<lparr> isGeneratingAudio := False \<rparr>"
        using None False gad nonempty unfolding x1_def
        by (simp add: handlePlayAudio_def Let_def)
      show ?thesis
      proof (cases "playDecodedAudio x1 audioData")
        case (Inl err)
        have "single_source (x1\<lparr> audioError := Some (message_or err msg_playback_failed),
            isGeneratingAudio := False \<rparr>)"
          using x1 by (simp add: single_source_def)
        with eq Inl show ?thesis by simp
      next
        case (Inr x2)
        from playDecodedAudio_Inr[OF Inr] have "x2\<lparr> isGeneratingAudio := False \<rparr> =
            x1\<lparr> sources := sources x1 @ [Playing],
               activeAudioSourceRef := Some (length (sources x1)),
               isPlayingAudio := True, isGeneratingAudio := False \<rparr>"
          by simp
        moreover have "single_source \<dots>"
          using x1 by (rule single_source_started)
        ultimately show ?thesis using eq Inr by simp
      qed
    qed
  qed
qed

lemma single_source_settled_idle:
  assumes "single_source x0" and "activeAudioSourceRef x0 = None" and "speechCalls x0 = 0"
  shows "single_source (handlePlayAudio_settled x0 result)"
proof -
  show ?thesis
  proof (cases result)
    case (Rejected err)
    then show ?thesis
      using assms by (simp add: handlePlayAudio_settled_def single_source_def)
  next
    case (Resolved base64Audio)
    define x1 where "x1 = x0\<lparr> generatedAudioData := Some base64Audio \<rparr>"
    have x1: "single_source x1" "activeAudioSourceRef x1 = None" "speechCalls x1 = 0"
      using assms by (simp_all add: x1_def single_source_def)
    show ?thesis
    proof (cases "playDecodedAudio x1 base64Audio")
      case (Inl err)
      then show ?thesis
        using assms Resolved unfolding x1_def
        by (simp add: handlePlayAudio_settled_def single_source_def)
    next
      case (Inr x2)
      have "handlePlayAudio_settled x0 result = x2\<lparr> isGeneratingAudio := False \<rparr>"
        using Resolved Inr unfolding x1_def by (simp add: handlePlayAudio_settled_def)
      also from playDecodedAudio_Inr[OF Inr] have "x2\<lparr> isGeneratingAudio := False \<rparr> =
          x1\<lparr> sources := sources x1 @ [Playing],
             activeAudioSourceRef := Some (length (sources x1)),
             isPlayingAudio := True, isGeneratingAudio := False \<rparr>"
        by simp
      finally show ?thesis
        using single_source_started[OF x1] by simp
    qed
  qed
qed

lemma single_source_settled:
  assumes "single_source x" and "0 < speechCalls x"
  shows "single_source (handlePlayAudio_settled (x\<lparr> speechCalls := speechCalls x - 1 \<rparr>) result)"
proof (rule single_source_settled_idle)
  from assms have one: "speechCalls x = 1" and ref: "activeAudioSourceRef x = None"
    by (auto simp: single_source_def)
  show "single_source (x\<lparr> speechCalls := speechCalls x - 1 \<rparr>)"
    using assms(1) one ref by (simp add: single_source_def)
  show "activeAudioSourceRef (x\<lparr> speechCalls := speechCalls x - 1 \<rparr>) = None"
    using ref by simp
  show "speechCalls (x\<lparr> speechCalls := speechCalls x - 1 \<rparr>) = 0"
    using one by simp
qed

lemma single_source_onended:
  assumes "single_source x" and "source < length (sources x)" and "sources x ! source \<noteq> Ended"
  shows "single_source (onended x source)"
proof -
  from assms have ref: "activeAudioSourceRef x = Some source"
    by (simp add: single_source_def)
  with assms(1) have calls: "speechCalls x = 0"
    by (auto simp: single_source_def)
  have "sources x ! s = Ended" if "s < length (sources x)" "s \<noteq> source" for s
    using assms(1) ref that by (auto simp: single_source_def)
  then show ?thesis
    using calls assms(2) by (auto simp: single_source_def onended_def nth_list_update)
qed

lemma single_source_step:
  assumes "single_source x" and "audio_step x e = Some x'"
  shows "single_source x'"
proof (cases e)
  case Toggle
  with assms show ?thesis by (auto intro: single_source_handlePlayAudio)
next
  case (SpeechSettled result)
  with assms single_source_settled[of x result] show ?thesis by (auto split: if_splits)
next
  case (SourceEnded source)
  with assms show ?thesis by (auto split: if_splits intro: single_source_onended)
next
  case PromptChanged
  have "single_source (x\<lparr> generatedAudioData := None \<rparr>)"
    using assms(1) by (simp add: single_source_def)
  with PromptChanged assms(2) show ?thesis
    by (auto simp: prompt_effect_def intro: single_source_stop_active)
next
  case VoiceChanged
  with assms show ?thesis by (auto simp: voice_effect_def single_source_def)
next
  case Unmounted
  with assms show ?thesis by (auto intro: single_source_stop_active)
qed

lemma single_source_run:
  "single_source x \<Longrightarrow> audio_run x es = Some x' \<Longrightarrow> single_source x'"
proof (induction es arbitrary: x)
  case Nil
  then show ?case by simp
next
  case (Cons e es)
  then show ?case
    by (auto split: option.splits dest: single_source_step)
qed

lemma single_source_mounted: "single_source (mounted ctx)"
  by (simp add: single_source_def mounted_def)

lemma single_source_live:
  assumes "single_source x"
  shows "live x \<le> 1"
proof -
  have "{i. i < length (sources x) \<and> sources x ! i = Playing} \<subseteq>
        (case activeAudioSourceRef x of None \<Rightarrow> {} | Some s \<Rightarrow> {s})"
    using assms by (auto simp: single_source_def split: option.splits)
  moreover have "finite (case activeAudioSourceRef x of None \<Rightarrow> {} | Some s \<Rightarrow> {s})"
    "card (case activeAudioSourceRef x of None \<Rightarrow> {} | Some s \<Rightarrow> {s}) \<le> 1"
    by (simp_all split: option.splits)
  ultimately have "card {i. i < length (sources x) \<and> sources x ! i = Playing} \<le> 1"
    by (meson card_mono le_trans)
  then show ?thesis
    by (simp add: live_def length_filter_conv_card)
qed

lemma live_zero_iff: "(live x = 0) = (\<forall>i < length (sources x). sources x ! i \<noteq> Playing)"
  by (auto simp: live_def filter_empty_conv in_set_conv_nth)

text \<open>The playing flag is set exactly while the ref holds a source.\<close>

lemma flag_handlePlayAudio:
  assumes "isPlayingAudio x \<longleftrightarrow> activeAudioSourceRef x \<noteq> None"
  shows "isPlayingAudio (handlePlayAudio x) \<longleftrightarrow> activeAudioSourceRef (handlePlayAudio x) \<noteq> None"
proof (cases "activeAudioSourceRef x")
  case (Some source)
  with assms show ?thesis
    by (simp add: handlePlayAudio_def)
next
  case None
  show ?thesis
  proof (cases "isGeneratingAudio x")
    case True
    with None assms show ?thesis by (simp add: handlePlayAudio_def)
  next
    case False
    show ?thesis
    proof (cases "generatedAudioData x = None \<or> generatedAudioData x = Some []")
      case True
      then have "handlePlayAudio x =
          x\<lparr> isGeneratingAudio := True, audioError := None, speechCalls := speechCalls x + 1 \<rparr>"
        using None False by (auto simp: handlePlayAudio_def Let_def)
      with assms show ?thesis by simp
    next
      case cached: False
      then obtain audioData where gad: "generatedAudioData x = Some audioData"
        and nonempty: "audioData \<noteq> []"
        by (cases "generatedAudioData x") auto
      define x1 where "x1 = x\<lparr> isGeneratingAudio := True, audioError := None \<rparr>"
      have eq: "handlePlayAudio x =
          (case playDecodedAudio x1 audioData of
             Inr x2 \<Rightarrow> x2
           | Inl err \<Rightarrow> x1\<lparr> audioError := Some (message_or err msg_playback_failed) \<rparr>)
          \<lparr> isGeneratingAudio := False \<rparr>"
        using None False gad nonempty unfolding x1_def
        by (simp add: handlePlayAudio_def Let_def)
      show ?thesis
      proof (cases "playDecodedAudio x1 audioData")
        case (Inl err)
        with eq assms show ?thesis by (simp add: x1_def)
      next
        case (Inr x2)
        from playDecodedAudio_Inr[OF Inr] eq Inr show ?thesis by simp
      qed
    qed
  qed
qed

lemma flag_handlePlayAudio_settled:
  "isPlayingAudio (handlePlayAudio_settled x result) \<longleftrightarrow>
   activeAudioSourceRef (handlePlayAudio_settled x result) \<noteq> None"
proof (cases result)
  case (Rejected err)
  then show ?thesis by (simp add: handlePlayAudio_settled_def)
next
  case (Resolved base64Audio)
  show ?thesis
  proof (cases "playDecodedAudio (x\<lparr> generatedAudioData := Some base64Audio \<rparr>) base64Audio")
    case (Inl err)
    with Resolved show ?thesis by (simp add: handlePlayAudio_settled_def)
  next
    case (Inr x2)
    from playDecodedAudio_Inr[OF Inr] Resolved Inr show ?thesis
      by (simp add: handlePlayAudio_settled_def)
  qed
qed

lemma flag_follows_ref_step:
  assumes "isPlayingAudio x \<longleftrightarrow> activeAudioSourceRef x \<noteq> None"
    and "audio_step x e = Some x'"
  shows "isPlayingAudio x' \<longleftrightarrow> activeAudioSourceRef x' \<noteq> None"
proof (cases e)
  case Toggle
  with assms(2) have "x' = handlePlayAudio x" by simp
  with flag_handlePlayAudio[OF assms(1)] show ?thesis by simp
next
  case (SpeechSettled result)
  with assms(2) have "x' = handlePlayAudio_settled (x\<lparr> speechCalls := speechCalls x - 1 \<rparr>) result"
    by (simp split: if_splits)
  with flag_handlePlayAudio_settled show ?thesis by simp
next
  case (SourceEnded source)
  with assms(2) have "x' = onended x source"
    by (simp split: if_splits)
  then show ?thesis by (simp add: onended_def)
next
  case PromptChanged
  with assms show ?thesis
    by (cases "activeAudioSourceRef x") (auto simp: prompt_effect_def stop_active_def)
next
  case VoiceChanged
  with assms show ?thesis
    by (auto simp: voice_effect_def)
next
  case Unmounted
  with assms show ?thesis
    by (cases "activeAudioSourceRef x") (auto simp: stop_active_def)
qed

lemma flag_follows_ref_run:
  assumes "isPlayingAudio x \<longleftrightarrow> activeAudioSourceRef x \<noteq> None"
    and "audio_run x es = Some x'"
  shows "isPlayingAudio x' \<longleftrightarrow> activeAudioSourceRef x' \<noteq> None"
  using assms
proof (induction es arbitrary: x)
  case Nil
  then show ?case by simp
next
  case (Cons e es)
  from Cons.prems(2) obtain x1 where s: "audio_step x e = Some x1"
    and r: "audio_run x1 es = Some x'"
    by (auto split: option.splits)
  from Cons.prems(1) s have "isPlayingAudio x1 \<longleftrightarrow> activeAudioSourceRef x1 \<noteq> None"
    by (rule flag_follows_ref_step)
  then show ?case using r by (rule Cons.IH)
qed

lemma flag_follows_ref:
  assumes "audio_run (mounted ctx0) es = Some x"
  shows "isPlayingAudio x \<longleftrightarrow> activeAudioSourceRef x \<noteq> None"
proof -
  have "isPlayingAudio (mounted ctx0) \<longleftrightarrow> activeAudioSourceRef (mounted ctx0) \<noteq> None"
    by (simp add: mounted_def)
  then show ?thesis using assms by (rule flag_follows_ref_run)
qed

subsection \<open>The payload and its bytes\<close>

lemma length_sextets_to_bytes: "length (sextets_to_bytes xs) \<le> length xs"
  by (induction xs rule: sextets_to_bytes.induct) simp_all

lemma length_strip_padding: "length (strip_padding d) \<le> length d"
  by (simp add: strip_padding_def)

text \<open>\<^verbatim>\<open>decode\<close> returns no more bytes than the payload has code units.\<close>

lemma length_decode:
  assumes "decode b64 = Inr audioBytes"
  shows "length audioBytes \<le> length b64"
proof -
  define d where "d = strip_padding (filter (\<lambda>c. \<not> isAsciiWhitespace c) b64)"
  from assms have "audioBytes =
      map ucast (map word_of_nat (sextets_to_bytes (map (\<lambda>c. the (base64_digit c)) d)) :: jsstring)"
    unfolding d_def by (auto simp: decode_def atob_def Let_def split: if_splits sum.splits)
  then have "length audioBytes = length (sextets_to_bytes (map (\<lambda>c. the (base64_digit c)) d))"
    by simp
  also have "\<dots> \<le> length d"
    using length_sextets_to_bytes[of "map (\<lambda>c. the (base64_digit c)) d"] by simp
  also have "\<dots> \<le> length (filter (\<lambda>c. \<not> isAsciiWhitespace c) b64)"
    unfolding d_def by (rule length_strip_padding)
  also have "\<dots> \<le> length b64"
    by (rule length_filter_le)
  finally show ?thesis .
qed

lemma decode_Nil: "decode [] = Inr []"
  by (simp add: decode_def atob_def strip_padding_def Let_def)

lemma decodeAudioData_Nil: "isl (decodeAudioData [] ctx sampleRate numChannels)"
  by (rule decodeAudioData_not_decodable) (simp add: decodable_def)

text \<open>
  A playable asset is not the empty string, so the test \<^verbatim>\<open>!generatedAudioData\<close> fails
  for it, and whether an asset is playable depends on the context alone.
\<close>

lemma playable_nonempty:
  assumes "playable x audioData"
  shows "audioData \<noteq> []"
proof
  assume "audioData = []"
  with assms have "\<not> isl (playDecodedAudio x [])"
    by (simp add: playable_def)
  moreover have "isl (playDecodedAudio x [])"
  proof (cases "audioCtxRef x")
    case None
    then show ?thesis by (simp add: playDecodedAudio_def decode_Nil)
  next
    case (Some ctx)
    from decodeAudioData_Nil[of ctx 24000 1] obtain e
      where "decodeAudioData [] ctx 24000 1 = Inl e"
      by (cases "decodeAudioData [] ctx 24000 1") simp_all
    with Some show ?thesis by (simp add: playDecodedAudio_def decode_Nil)
  qed
  ultimately show False by simp
qed

lemma playable_cong:
  assumes "audioCtxRef x' = audioCtxRef x" and "playable x audioData"
  shows "playable x' audioData"
  using assms
  by (auto simp: playable_def playDecodedAudio_def split: option.splits sum.splits)

lemma playDecodedAudio_playable:
  assumes "playable x audioData"
  shows "playDecodedAudio x audioData =
     Inr (x\<lparr> sources := sources x @ [Playing],
             activeAudioSourceRef := Some (length (sources x)),
             isPlayingAudio := True \<rparr>)"
proof -
  from assms obtain x2 where "playDecodedAudio x audioData = Inr x2"
    by (cases "playDecodedAudio x audioData") (simp_all add: playable_def)
  then show ?thesis
    by (simp add: playDecodedAudio_Inr)
qed

lemma playDecodedAudio_valid:
  assumes "decode audioData = Inr audioBytes" and "audioCtxRef x = Some ctx"
    and "decodeAudioData audioBytes ctx 24000 1 = Inr audioBuffer"
  shows "playDecodedAudio x audioData =
     Inr (x\<lparr> sources := sources x @ [Playing],
             activeAudioSourceRef := Some (length (sources x)),
             isPlayingAudio := True \<rparr>)"
  using assms by (simp add: playDecodedAudio_def)

lemma playable_valid:
  assumes "decode audioData = Inr audioBytes" and "audioCtxRef x = Some ctx"
    and "decodeAudioData audioBytes ctx 24000 1 = Inr audioBuffer"
  shows "playable x audioData"
  using playDecodedAudio_valid[OF assms] by (simp add: playable_def)

subsection \<open>The toggle\<close>

lemma live_stop:
  assumes "\<forall>i < length nodes. i \<noteq> s \<longrightarrow> nodes ! i = Ended"
  shows "length (filter (\<lambda>st. st = Playing) (stop nodes s)) = 0"
proof -
  have "stop nodes s ! i \<noteq> Playing" if "i < length nodes" for i
  proof (cases "i = s")
    case True
    with that show ?thesis by (simp add: stop_def)
  next
    case False
    with assms that have "nodes ! i = Ended" by simp
    with False that show ?thesis by (simp add: stop_def)
  qed
  then have "\<forall>st \<in> set (stop nodes s). st \<noteq> Playing"
    by (auto simp: in_set_conv_nth)
  then show ?thesis
    by (simp add: filter_empty_conv)
qed

text \<open>With a source in the ref the toggle stops that source and does nothing else.\<close>

lemma toggle_with_ref:
  assumes "single_source x" and "activeAudioSourceRef x = Some s"
  shows "handlePlayAudio x = x\<lparr> sources := stop (sources x) s \<rparr>"
    and "live (handlePlayAudio x) = 0"
proof -
  show eq: "handlePlayAudio x = x\<lparr> sources := stop (sources x) s \<rparr>"
    using assms(2) by (simp add: handlePlayAudio_def)
  have "\<forall>i < length (sources x). i \<noteq> s \<longrightarrow> sources x ! i = Ended"
    using assms by (auto simp: single_source_def)
  then have "length (filter (\<lambda>st. st = Playing) (stop (sources x) s)) = 0"
    by (rule live_stop)
  then show "live (handlePlayAudio x) = 0"
    by (simp add: eq live_def)
qed

lemma idle_all_ended:
  assumes "single_source x" and "activeAudioSourceRef x = None"
  shows "\<forall>i < length (sources x). sources x ! i = Ended"
  using assms by (auto simp: single_source_def)

lemma live_appended:
  assumes "\<forall>i < length nodes. nodes ! i = Ended"
  shows "length (filter (\<lambda>s. s = Playing) (nodes @ [st])) = (if st = Playing then 1 else 0)"
proof -
  have "filter (\<lambda>s. s = Playing) nodes = []"
    using assms by (auto simp: filter_empty_conv in_set_conv_nth)
  then show ?thesis by simp
qed

text \<open>
  With an empty ref, no generation running and a playable asset at hand, the toggle
  starts one source and leaves the generation flag as it was.
\<close>

lemma toggle_ready:
  assumes "single_source x" and "ready x audioData"
  shows "handlePlayAudio x =
           x\<lparr> audioError := None, sources := sources x @ [Playing],
              activeAudioSourceRef := Some (length (sources x)), isPlayingAudio := True \<rparr>"
    and "live x = 0" and "live (handlePlayAudio x) = 1"
proof -
  from assms(2) have ref: "activeAudioSourceRef x = None" and gen: "\<not> isGeneratingAudio x"
    and gad: "generatedAudioData x = Some audioData" and p: "playable x audioData"
    by (simp_all add: ready_def)
  from p have ne: "audioData \<noteq> []"
    by (rule playable_nonempty)
  have "playable (x\<lparr> isGeneratingAudio := True, audioError := None \<rparr>) audioData"
    by (rule playable_cong[OF _ p]) simp
  from playDecodedAudio_playable[OF this]
  show eq: "handlePlayAudio x =
           x\<lparr> audioError := None, sources := sources x @ [Playing],
              activeAudioSourceRef := Some (length (sources x)), isPlayingAudio := True \<rparr>"
    using ref gen gad ne by (simp add: handlePlayAudio_def Let_def)
  have ended: "\<forall>i < length (sources x). sources x ! i = Ended"
    using assms(1) ref by (rule idle_all_ended)
  then show "live x = 0"
    by (simp add: live_zero_iff)
  show "live (handlePlayAudio x) = 1"
    using live_appended[OF ended, of Playing] by (simp add: eq live_def)
qed

text \<open>
  Without an asset (\<^verbatim>\<open>null\<close> or the empty string) the toggle requests the speech; while
  the request runs a further toggle does nothing; the source starts when the request
  resolves with a playable asset.
\<close>

lemma toggle_requests_speech:
  assumes "activeAudioSourceRef x = None" and "\<not> isGeneratingAudio x"
    and "generatedAudioData x = None \<or> generatedAudioData x = Some []"
  shows "handlePlayAudio x =
           x\<lparr> isGeneratingAudio := True, audioError := None, speechCalls := speechCalls x + 1 \<rparr>"
  using assms by (auto simp: handlePlayAudio_def Let_def)

lemma toggle_while_generating:
  assumes "activeAudioSourceRef x = None" and "isGeneratingAudio x"
  shows "handlePlayAudio x = x"
  using assms by (simp add: handlePlayAudio_def)

lemma speech_resolved_playable:
  assumes "single_source x" and "0 < speechCalls x" and "playable x base64Audio"
  shows "audio_step x (SpeechSettled (Resolved base64Audio)) =
           Some (x\<lparr> speechCalls := speechCalls x - 1, generatedAudioData := Some base64Audio,
                    sources := sources x @ [Playing],
                    activeAudioSourceRef := Some (length (sources x)),
                    isPlayingAudio := True, isGeneratingAudio := False \<rparr>)"
    and "live (x\<lparr> speechCalls := speechCalls x - 1, generatedAudioData := Some base64Audio,
                    sources := sources x @ [Playing],
                    activeAudioSourceRef := Some (length (sources x)),
                    isPlayingAudio := True, isGeneratingAudio := False \<rparr>) = 1"
proof -
  from assms(1,2) have ref: "activeAudioSourceRef x = None"
    by (simp add: single_source_def)
  have "playable (x\<lparr> speechCalls := speechCalls x - 1,
      generatedAudioData := Some base64Audio \<rparr>) base64Audio"
    by (rule playable_cong[OF _ assms(3)]) simp
  from playDecodedAudio_playable[OF this] assms(2)
  show "audio_step x (SpeechSettled (Resolved base64Audio)) =
           Some (x\<lparr> speechCalls := speechCalls x - 1, generatedAudioData := Some base64Audio,
                    sources := sources x @ [Playing],
                    activeAudioSourceRef := Some (length (sources x)),
                    isPlayingAudio := True, isGeneratingAudio := False \<rparr>)"
    by (simp add: handlePlayAudio_settled_def)
  show "live (x\<lparr> speechCalls := speechCalls x - 1, generatedAudioData := Some base64Audio,
                    sources := sources x @ [Playing],
                    activeAudioSourceRef := Some (length (sources x)),
                    isPlayingAudio := True, isGeneratingAudio := False \<rparr>) = 1"
    using live_appended[OF idle_all_ended[OF assms(1) ref], of Playing] by (simp add: live_def)
qed

text \<open>
  With an asset that is at hand but not playable the toggle starts nothing, reports the
  error and clears the generation flag.
\<close>

lemma toggle_not_playable:
  assumes "activeAudioSourceRef x = None" and "\<not> isGeneratingAudio x"
    and "generatedAudioData x = Some audioData" and "audioData \<noteq> []"
    and "playDecodedAudio x audioData = Inl err"
  shows "handlePlayAudio x = x\<lparr> audioError := Some (message_or err msg_playback_failed) \<rparr>"
proof -
  have "playDecodedAudio (x\<lparr> isGeneratingAudio := True, audioError := None \<rparr>) audioData = Inl err"
    using assms(5) by (auto simp: playDecodedAudio_def split: option.splits sum.splits)
  then show ?thesis
    using assms(1-4) by (simp add: handlePlayAudio_def Let_def)
qed

subsection \<open>One round of playback\<close>

text \<open>
  The states of a round that begins in a state \<open>x\<close>: the source started, the source
  stopped by the next toggle, and the \<^verbatim>\<open>ended\<close> event handled. The second toggle stops the
  source at once; the ref and the playing flag are cleared by the \<^verbatim>\<open>ended\<close> event only,
  and in between the toggle changes nothing.
\<close>

lemma toggle_started:
  assumes "single_source x" and "activeAudioSourceRef x = None"
  defines "started \<equiv> x\<lparr> audioError := None, sources := sources x @ [Playing],
      activeAudioSourceRef := Some (length (sources x)), isPlayingAudio := True \<rparr>"
  defines "stopped \<equiv> x\<lparr> audioError := None, sources := sources x @ [Stopped],
      activeAudioSourceRef := Some (length (sources x)), isPlayingAudio := True \<rparr>"
  defines "ended \<equiv> x\<lparr> audioError := None, sources := sources x @ [Ended],
      activeAudioSourceRef := None, isPlayingAudio := False \<rparr>"
  shows "handlePlayAudio started = stopped" and "live stopped = 0"
    and "handlePlayAudio stopped = stopped"
    and "audio_step stopped (SourceEnded (length (sources x))) = Some ended"
    and "audio_step started (SourceEnded (length (sources x))) = Some ended"
    and "live ended = 0"
proof -
  have ended: "\<forall>i < length (sources x). sources x ! i = Ended"
    using assms(1,2) by (rule idle_all_ended)
  show "handlePlayAudio started = stopped"
    by (simp add: handlePlayAudio_def started_def stopped_def stop_def)
  show "live stopped = 0"
    using live_appended[OF ended, of Stopped] by (simp add: stopped_def live_def)
  show "handlePlayAudio stopped = stopped"
    by (simp add: handlePlayAudio_def stopped_def stop_def)
  show "audio_step stopped (SourceEnded (length (sources x))) = Some ended"
    by (simp add: stopped_def ended_def onended_def)
  show "audio_step started (SourceEnded (length (sources x))) = Some ended"
    by (simp add: started_def ended_def onended_def)
  show "live ended = 0"
    using live_appended[OF ended, of Ended] by (simp add: ended_def live_def)
qed

lemma ready_ended:
  assumes "ready x audioData"
  shows "ready (x\<lparr> audioError := None, sources := sources x @ [Ended],
      activeAudioSourceRef := None, isPlayingAudio := False \<rparr>) audioData"
proof -
  from assms have p: "playable x audioData"
    by (simp add: ready_def)
  have "playable (x\<lparr> audioError := None, sources := sources x @ [Ended],
      activeAudioSourceRef := None, isPlayingAudio := False \<rparr>) audioData"
    by (rule playable_cong[OF _ p]) simp
  with assms show ?thesis
    by (simp add: ready_def)
qed

subsection \<open>Examples\<close>

lemma decode_silent_payload: "decode silent_payload = Inr [0, 0]"
  by (simp add: decode_def atob_def silent_payload_def strip_padding_def isAsciiWhitespace_def
        base64_digit_def Let_def)

lemma decodeAudioData_silent: "decodeAudioData [0, 0] audioCtx 24000 1 = Inr [[Finite 0]]"
proof -
  have "decodable [0, 0] audioCtx 24000 1"
    by (simp add: decodable_def audioCtx_def)
  then have "decodeAudioData [0, 0] audioCtx 24000 1 = Inr (decoded [0, 0] 1)"
    by (rule decodeAudioData_decodable)
  also have "decoded [0, 0] 1 = [[Finite 0]]"
    by (simp add: decoded_def sample_value_def)
  finally show ?thesis .
qed

lemma playable_silent:
  assumes "audioCtxRef x = Some audioCtx"
  shows "playable x silent_payload"
  using decode_silent_payload assms decodeAudioData_silent by (rule playable_valid)

lemma run_playing_example:
  "audio_run (mounted audioCtx) [Toggle, SpeechSettled (Resolved silent_payload)] =
     Some playing_example"
proof -
  define x1 where "x1 = (mounted audioCtx)\<lparr> isGeneratingAudio := True, speechCalls := 1 \<rparr>"
  have s1: "audio_step (mounted audioCtx) Toggle = Some x1"
    by (simp add: handlePlayAudio_def mounted_def x1_def Let_def)
  have "playable (x1\<lparr> speechCalls := speechCalls x1 - 1,
      generatedAudioData := Some silent_payload \<rparr>) silent_payload"
    by (rule playable_silent) (simp add: x1_def mounted_def)
  from playDecodedAudio_playable[OF this]
  have s2: "audio_step x1 (SpeechSettled (Resolved silent_payload)) = Some playing_example"
    by (simp add: handlePlayAudio_settled_def) (simp add: x1_def mounted_def playing_example_def)
  show ?thesis
    by (simp only: audio_run.simps s1 s2 option.case)
qed

lemma audio_run_append:
  "audio_run x (es @ es') = (case audio_run x es of None \<Rightarrow> None | Some y \<Rightarrow> audio_run y es')"
  by (induction es arbitrary: x) (simp_all split: option.splits)

lemma step_stopped_example: "audio_step playing_example Toggle = Some stopped_example"
  by (simp add: handlePlayAudio_def playing_example_def stopped_example_def stop_def)

lemma run_stopped_example:
  "audio_run (mounted audioCtx) [Toggle, SpeechSettled (Resolved silent_payload), Toggle] =
     Some stopped_example"
proof -
  have "audio_run (mounted audioCtx)
     ([Toggle, SpeechSettled (Resolved silent_payload)] @ [Toggle]) =
     audio_run playing_example [Toggle]"
    by (simp only: audio_run_append run_playing_example option.case)
  also have "\<dots> = Some stopped_example"
    by (simp only: audio_run.simps step_stopped_example option.case)
  finally show ?thesis by simp
qed

lemma run_idle_example:
  "audio_run (mounted audioCtx)
     [Toggle, SpeechSettled (Resolved silent_payload), Toggle, SourceEnded 0] =
     Some idle_example"
proof -
  have s4: "audio_step stopped_example (SourceEnded 0) = Some idle_example"
    by (simp add: stopped_example_def idle_example_def onended_def)
  have "audio_run (mounted audioCtx)
     ([Toggle, SpeechSettled (Resolved silent_payload)] @ [Toggle, SourceEnded 0]) =
     audio_run playing_example [Toggle, SourceEnded 0]"
    by (simp only: audio_run_append run_playing_example option.case)
  also have "\<dots> = Some idle_example"
    by (simp only: audio_run.simps step_stopped_example s4 option.case)
  finally show ?thesis by simp
qed

text \<open>
  The clean-up on unmount stops the source that the ref holds and nothing else: a speech
  request that is outstanding then still starts its source when it resolves.
\<close>

lemma run_unmounted_example:
  "audio_run (mounted audioCtx) [Toggle, Unmounted, SpeechSettled (Resolved silent_payload)] =
     Some playing_example"
proof -
  define x1 where "x1 = (mounted audioCtx)\<lparr> isGeneratingAudio := True, speechCalls := 1 \<rparr>"
  have s1: "audio_step (mounted audioCtx) Toggle = Some x1"
    by (simp add: handlePlayAudio_def mounted_def x1_def Let_def)
  have s2: "audio_step x1 Unmounted = Some x1"
    by (simp add: stop_active_def x1_def mounted_def)
  have "playable (x1\<lparr> speechCalls := speechCalls x1 - 1,
      generatedAudioData := Some silent_payload \<rparr>) silent_payload"
    by (rule playable_silent) (simp add: x1_def mounted_def)
  from playDecodedAudio_playable[OF this]
  have s3: "audio_step x1 (SpeechSettled (Resolved silent_payload)) = Some playing_example"
    by (simp add: handlePlayAudio_settled_def) (simp add: x1_def mounted_def playing_example_def)
  show ?thesis
    by (simp only: audio_run.simps s1 s2 s3 option.case)
qed

lemma ready_idle_example: "ready idle_example silent_payload"
proof -
  have "playable idle_example silent_payload"
    by (rule playable_silent) (simp add: idle_example_def)
  then show ?thesis
    by (simp add: ready_def idle_example_def)
qed

text \<open>
  Claim C2, for one mounted instance of the component. In every state \<open>x\<close> that the
  controller reaches from its mount, by any sequence of toggles, settled speech requests,
  \<^verbatim>\<open>ended\<close> events and effects: at most one source produces sound, and the playing flag is
  set exactly while the ref holds a source. A toggle while the ref holds a source stops
  that source and does nothing else: no source is created and none is live afterwards. A
  toggle while the controller is \<open>ready\<close> (empty ref, no generation running, a playable
  asset at hand) starts one source, puts it in the ref, sets the playing flag and leaves
  the generation flag clear. The next toggle stops that source at once, so nothing is
  live, but the ref and the playing flag stay set until the \<^verbatim>\<open>ended\<close> event that the stop
  causes: until then a further toggle changes nothing. The \<^verbatim>\<open>ended\<close> event, after the stop
  or at the natural end of the stream, clears the ref and the flag and leaves the
  controller ready again, so the toggle after it starts a source anew.
\<close>

theorem playback_toggle_round:
  assumes "audio_run (mounted ctx0) es = Some x"
  shows "live x \<le> 1 \<and>
    (isPlayingAudio x \<longleftrightarrow> activeAudioSourceRef x \<noteq> None) \<and>
    (activeAudioSourceRef x = Some s \<longrightarrow>
       handlePlayAudio x = x\<lparr> sources := stop (sources x) s \<rparr> \<and>
       length (sources (handlePlayAudio x)) = length (sources x) \<and>
       live (handlePlayAudio x) = 0) \<and>
    (ready x audioData \<longrightarrow>
       (let n = length (sources x);
            started = x\<lparr> audioError := None, sources := sources x @ [Playing],
                         activeAudioSourceRef := Some n, isPlayingAudio := True \<rparr>;
            stopped = x\<lparr> audioError := None, sources := sources x @ [Stopped],
                         activeAudioSourceRef := Some n, isPlayingAudio := True \<rparr>;
            ended = x\<lparr> audioError := None, sources := sources x @ [Ended],
                       activeAudioSourceRef := None, isPlayingAudio := False \<rparr>
        in live x = 0 \<and>
           handlePlayAudio x = started \<and> live started = 1 \<and>
           handlePlayAudio started = stopped \<and> live stopped = 0 \<and>
           handlePlayAudio stopped = stopped \<and>
           audio_step stopped (SourceEnded n) = Some ended \<and>
           audio_step started (SourceEnded n) = Some ended \<and>
           live ended = 0 \<and> ready ended audioData \<and>
           live (handlePlayAudio ended) = 1))"
proof -
  have inv: "single_source x"
    using single_source_mounted assms by (rule single_source_run)
  have a: "live x \<le> 1"
    using inv by (rule single_source_live)
  have f: "isPlayingAudio x \<longleftrightarrow> activeAudioSourceRef x \<noteq> None"
    using assms by (rule flag_follows_ref)
  have b: "handlePlayAudio x = x\<lparr> sources := stop (sources x) s \<rparr> \<and>
       length (sources (handlePlayAudio x)) = length (sources x) \<and>
       live (handlePlayAudio x) = 0"
    if ref: "activeAudioSourceRef x = Some s"
  proof -
    have eq: "handlePlayAudio x = x\<lparr> sources := stop (sources x) s \<rparr>"
      using inv ref by (rule toggle_with_ref(1))
    have l: "live (handlePlayAudio x) = 0"
      using inv ref by (rule toggle_with_ref(2))
    have "length (sources (x\<lparr> sources := stop (sources x) s \<rparr>)) = length (sources x)"
      by simp
    then have "length (sources (handlePlayAudio x)) = length (sources x)"
      by (simp only: eq)
    with eq l show ?thesis by blast
  qed
  have c: "(let n = length (sources x);
            started = x\<lparr> audioError := None, sources := sources x @ [Playing],
                         activeAudioSourceRef := Some n, isPlayingAudio := True \<rparr>;
            stopped = x\<lparr> audioError := None, sources := sources x @ [Stopped],
                         activeAudioSourceRef := Some n, isPlayingAudio := True \<rparr>;
            ended = x\<lparr> audioError := None, sources := sources x @ [Ended],
                       activeAudioSourceRef := None, isPlayingAudio := False \<rparr>
        in live x = 0 \<and>
           handlePlayAudio x = started \<and> live started = 1 \<and>
           handlePlayAudio started = stopped \<and> live stopped = 0 \<and>
           handlePlayAudio stopped = stopped \<and>
           audio_step stopped (SourceEnded n) = Some ended \<and>
           audio_step started (SourceEnded n) = Some ended \<and>
           live ended = 0 \<and> ready ended audioData \<and>
           live (handlePlayAudio ended) = 1)"
    if r: "ready x audioData"
  proof -
    define n where "n = length (sources x)"
    define started where "started = x\<lparr> audioError := None, sources := sources x @ [Playing],
        activeAudioSourceRef := Some n, isPlayingAudio := True \<rparr>"
    define stopped where "stopped = x\<lparr> audioError := None, sources := sources x @ [Stopped],
        activeAudioSourceRef := Some n, isPlayingAudio := True \<rparr>"
    define ended where "ended = x\<lparr> audioError := None, sources := sources x @ [Ended],
        activeAudioSourceRef := None, isPlayingAudio := False \<rparr>"
    from r have ref: "activeAudioSourceRef x = None"
      by (simp add: ready_def)
    have 1: "live x = 0"
      using inv r by (rule toggle_ready(2))
    have 2: "handlePlayAudio x = started"
      unfolding started_def n_def using inv r by (rule toggle_ready(1))
    have "live (handlePlayAudio x) = 1"
      using inv r by (rule toggle_ready(3))
    then have 3: "live started = 1"
      by (simp only: 2)
    have 4: "handlePlayAudio started = stopped"
      unfolding started_def stopped_def n_def using inv ref by (rule toggle_started(1))
    have 5: "live stopped = 0"
      unfolding stopped_def n_def using inv ref by (rule toggle_started(2))
    have 6: "handlePlayAudio stopped = stopped"
      unfolding stopped_def n_def using inv ref by (rule toggle_started(3))
    have 7: "audio_step stopped (SourceEnded n) = Some ended"
      unfolding stopped_def ended_def n_def using inv ref by (rule toggle_started(4))
    have 8: "audio_step started (SourceEnded n) = Some ended"
      unfolding started_def ended_def n_def using inv ref by (rule toggle_started(5))
    have 9: "live ended = 0"
      unfolding ended_def using inv ref by (rule toggle_started(6))
    have 10: "ready ended audioData"
      unfolding ended_def using r by (rule ready_ended)
    have "single_source started"
      using inv single_source_handlePlayAudio[of x] by (simp only: 2)
    then have "single_source ended"
      using 8 by (rule single_source_step)
    then have 11: "live (handlePlayAudio ended) = 1"
      using 10 by (rule toggle_ready(3))
    from 1 2 3 4 5 6 7 8 9 10 11 show ?thesis
      unfolding Let_def n_def[symmetric] started_def[symmetric] stopped_def[symmetric]
        ended_def[symmetric]
      by blast
  qed
  from a f b c show ?thesis by blast
qed

theorem playback_toggle_round_witness:
  "audio_run (mounted audioCtx) [Toggle, SpeechSettled (Resolved silent_payload)] =
     Some playing_example \<and>
   activeAudioSourceRef playing_example = Some 0 \<and>
   live playing_example \<le> 1 \<and> isPlayingAudio playing_example \<and>
   handlePlayAudio playing_example = stopped_example \<and>
   length (sources (handlePlayAudio playing_example)) = 1 \<and>
   live (handlePlayAudio playing_example) = 0 \<and>
   audio_run (mounted audioCtx)
     [Toggle, SpeechSettled (Resolved silent_payload), Toggle, SourceEnded 0] =
     Some idle_example \<and>
   ready idle_example silent_payload \<and>
   live idle_example = 0 \<and> \<not> isPlayingAudio idle_example \<and>
   handlePlayAudio idle_example =
     \<lparr> audioCtxRef = Some audioCtx, activeAudioSourceRef = Some 1, isGeneratingAudio = False,
       isPlayingAudio = True, generatedAudioData = Some silent_payload, audioError = None,
       sources = [Ended, Playing], speechCalls = 0 \<rparr> \<and>
   live (handlePlayAudio idle_example) = 1 \<and>
   handlePlayAudio (handlePlayAudio idle_example) =
     \<lparr> audioCtxRef = Some audioCtx, activeAudioSourceRef = Some 1, isGeneratingAudio = False,
       isPlayingAudio = True, generatedAudioData = Some silent_payload, audioError = None,
       sources = [Ended, Stopped], speechCalls = 0 \<rparr> \<and>
   live (handlePlayAudio (handlePlayAudio idle_example)) = 0 \<and>
   handlePlayAudio (handlePlayAudio (handlePlayAudio idle_example)) =
     handlePlayAudio (handlePlayAudio idle_example) \<and>
   audio_step (handlePlayAudio (handlePlayAudio idle_example)) (SourceEnded 1) =
     Some (idle_example\<lparr> sources := [Ended, Ended] \<rparr>) \<and>
   audio_step (handlePlayAudio idle_example) (SourceEnded 1) =
     Some (idle_example\<lparr> sources := [Ended, Ended] \<rparr>) \<and>
   live (idle_example\<lparr> sources := [Ended, Ended] \<rparr>) = 0 \<and>
   ready (idle_example\<lparr> sources := [Ended, Ended] \<rparr>) silent_payload \<and>
   live (handlePlayAudio (idle_example\<lparr> sources := [Ended, Ended] \<rparr>)) = 1"
proof -
  have p: "activeAudioSourceRef playing_example = Some 0"
    by (simp add: playing_example_def)
  have st: "playing_example\<lparr> sources := stop (sources playing_example) 0 \<rparr> = stopped_example"
    by (simp add: playing_example_def stopped_example_def stop_def)
  have len: "length (sources playing_example) = 1"
    by (simp add: playing_example_def)
  from playback_toggle_round[OF run_playing_example, of 0 silent_payload] p
  have 1: "live playing_example \<le> 1"
    and 2: "isPlayingAudio playing_example"
    and 3: "handlePlayAudio playing_example =
        playing_example\<lparr> sources := stop (sources playing_example) 0 \<rparr>"
    and 4: "length (sources (handlePlayAudio playing_example)) = length (sources playing_example)"
    and 5: "live (handlePlayAudio playing_example) = 0"
    by blast+
  define started where "started =
     \<lparr> audioCtxRef = Some audioCtx, activeAudioSourceRef = Some 1, isGeneratingAudio = False,
       isPlayingAudio = True, generatedAudioData = Some silent_payload, audioError = None,
       sources = [Ended, Playing], speechCalls = 0 \<rparr>"
  define stopped where "stopped =
     \<lparr> audioCtxRef = Some audioCtx, activeAudioSourceRef = Some 1, isGeneratingAudio = False,
       isPlayingAudio = True, generatedAudioData = Some silent_payload, audioError = None,
       sources = [Ended, Stopped], speechCalls = 0 \<rparr>"
  define ended where "ended = idle_example\<lparr> sources := [Ended, Ended] \<rparr>"
  have e1: "idle_example\<lparr> audioError := None, sources := sources idle_example @ [Playing],
      activeAudioSourceRef := Some (length (sources idle_example)), isPlayingAudio := True \<rparr> =
      started"
    by (simp add: idle_example_def started_def)
  have e2: "idle_example\<lparr> audioError := None, sources := sources idle_example @ [Stopped],
      activeAudioSourceRef := Some (length (sources idle_example)), isPlayingAudio := True \<rparr> =
      stopped"
    by (simp add: idle_example_def stopped_def)
  have e3: "idle_example\<lparr> audioError := None, sources := sources idle_example @ [Ended],
      activeAudioSourceRef := None, isPlayingAudio := False \<rparr> = ended"
    by (simp add: idle_example_def ended_def)
  have e4: "length (sources idle_example) = 1"
    by (simp add: idle_example_def)
  have i0: "activeAudioSourceRef idle_example = None"
    by (simp add: idle_example_def)
  from playback_toggle_round[OF run_idle_example, of 0 silent_payload,
      unfolded Let_def e1 e2 e3, unfolded e4] ready_idle_example
  have flag: "isPlayingAudio idle_example \<longleftrightarrow> activeAudioSourceRef idle_example \<noteq> None"
    and round: "live idle_example = 0 \<and>
           handlePlayAudio idle_example = started \<and> live started = 1 \<and>
           handlePlayAudio started = stopped \<and> live stopped = 0 \<and>
           handlePlayAudio stopped = stopped \<and>
           audio_step stopped (SourceEnded 1) = Some ended \<and>
           audio_step started (SourceEnded 1) = Some ended \<and>
           live ended = 0 \<and> ready ended silent_payload \<and>
           live (handlePlayAudio ended) = 1"
    by blast+
  from flag i0 have 6: "\<not> isPlayingAudio idle_example"
    by simp
  from round have r1: "live idle_example = 0" and r2: "handlePlayAudio idle_example = started"
    and r3: "live started = 1" and r4: "handlePlayAudio started = stopped"
    and r5: "live stopped = 0" and r6: "handlePlayAudio stopped = stopped"
    and r7: "audio_step stopped (SourceEnded 1) = Some ended"
    and r8: "audio_step started (SourceEnded 1) = Some ended"
    and r9: "live ended = 0" and r10: "ready ended silent_payload"
    and r11: "live (handlePlayAudio ended) = 1"
    by blast+
  have "handlePlayAudio playing_example = stopped_example"
    by (simp only: 3 st)
  moreover have "length (sources (handlePlayAudio playing_example)) = 1"
    by (simp only: 4 len)
  moreover have "handlePlayAudio (handlePlayAudio idle_example) = stopped"
    by (simp only: r2 r4)
  moreover have "live (handlePlayAudio idle_example) = 1"
    by (simp only: r2 r3)
  moreover have "live (handlePlayAudio (handlePlayAudio idle_example)) = 0"
    by (simp only: r2 r4 r5)
  moreover have "handlePlayAudio (handlePlayAudio (handlePlayAudio idle_example)) =
     handlePlayAudio (handlePlayAudio idle_example)"
    by (simp only: r2 r4 r6)
  moreover have "audio_step (handlePlayAudio (handlePlayAudio idle_example)) (SourceEnded 1) =
     Some ended"
    by (simp only: r2 r4 r7)
  moreover have "audio_step (handlePlayAudio idle_example) (SourceEnded 1) = Some ended"
    by (simp only: r2 r8)
  ultimately show ?thesis
    using run_playing_example p 1 2 5 run_idle_example ready_idle_example r1 6 r2 r9 r10 r11
    unfolding started_def stopped_def ended_def
    by blast
qed

text \<open>
  After the second toggle and before the \<^verbatim>\<open>ended\<close> event no source produces sound and the
  asset is at hand and playable, but the ref and the playing flag are still set: the
  controller has not gone back to idle, and a toggle does not start playback. And the
  bound of one source is that of one instance: a speech request that resolves after the
  unmount starts a source that nothing stops, while the next instance starts its own.
\<close>

theorem toggle_after_stop_starts_nothing:
  "audio_run (mounted audioCtx) [Toggle, SpeechSettled (Resolved silent_payload), Toggle] =
     Some stopped_example \<and>
   live stopped_example = 0 \<and>
   generatedAudioData stopped_example = Some silent_payload \<and>
   playable stopped_example silent_payload \<and>
   \<not> isGeneratingAudio stopped_example \<and>
   isPlayingAudio stopped_example \<and> activeAudioSourceRef stopped_example = Some 0 \<and>
   handlePlayAudio stopped_example = stopped_example \<and>
   live (handlePlayAudio stopped_example) = 0 \<and>
   audio_run (mounted audioCtx) [Toggle, Unmounted, SpeechSettled (Resolved silent_payload)] =
     Some playing_example \<and>
   audio_run (mounted audioCtx) [Toggle, SpeechSettled (Resolved silent_payload)] =
     Some playing_example \<and>
   live_all [playing_example, playing_example] = 2"
proof -
  have 1: "live stopped_example = 0"
    by (simp add: live_def stopped_example_def)
  have 2: "playable stopped_example silent_payload"
    by (rule playable_silent) (simp add: stopped_example_def)
  have 3: "handlePlayAudio stopped_example = stopped_example"
    by (simp add: handlePlayAudio_def stopped_example_def stop_def)
  have 4: "live (handlePlayAudio stopped_example) = 0"
    by (simp only: 3 1)
  have 5: "generatedAudioData stopped_example = Some silent_payload"
    "\<not> isGeneratingAudio stopped_example" "isPlayingAudio stopped_example"
    "activeAudioSourceRef stopped_example = Some 0"
    by (simp_all add: stopped_example_def)
  have 6: "live_all [playing_example, playing_example] = 2"
    by (simp add: live_all_def live_def playing_example_def)
  from run_stopped_example 1 2 3 4 5 run_unmounted_example run_playing_example 6
  show ?thesis by blast
qed

end
